(* ===== verification/Prelude.thy ===== *)
theory Prelude
  imports Complex_Main "HOL-Library.List_Lexorder" "HOL-Library.Char_ord"
begin

text \<open>
  Shared vocabulary of the reportgen development: Python's exceptions as values, pandas
  cells and series, the numeric primitives the code calls (\<open>int()\<close> truncation,
  \<open>np.sqrt\<close> compared with a count, pandas' sample standard deviation) and the string
  helpers that Python's \<open>'%s' % x\<close> and the regular expression \<open>(.*?)(\d+)\<close> rest on.
  The lemmas here are the evaluation and rewriting rules the component theories share;
  \<open>eval_simps\<close> collects the ones that turn a concrete instance into a value.
\<close>

named_theorems eval_simps "rules that evaluate the model on concrete inputs"

section \<open>Python exceptions and pandas series\<close>

text \<open>
  Every exception the analysed code can raise and does not catch becomes a value
  \<open>Inl e\<close> of a sum type.
\<close>

datatype pyerr =
    ValueError    \<comment> \<open>\<open>float('abc')\<close>, \<open>np.histogram(bins=0)\<close>, min of an empty array\<close>
  | IndexError    \<comment> \<open>\<open>s.dropna().iloc[0]\<close> on an all-missing series\<close>
  | KeyError      \<comment> \<open>a missing column or dictionary key\<close>
  | LinAlgError   \<comment> \<open>\<open>gaussian_kde\<close> on data with a singular covariance\<close>
  | AttributeError \<comment> \<open>the \<open>.str\<close> accessor on an object column holding no string\<close>
  | TypeError     \<comment> \<open>\<open>gaussian_kde\<close> called with an argument it does not take, \<open>','.join\<close> of a non-string\<close>
  | NameError     \<comment> \<open>a module-level name (\<open>myfont\<close>) read before it is bound\<close>
  | FileNotFoundError \<comment> \<open>\<open>os.remove\<close> of a path that holds no file\<close>

text \<open>A pandas cell is \<open>None\<close> where the value is missing (NaN, NaT); a series is a list of cells.\<close>

type_synonym 'a series = "'a option list"

primrec dropna :: "'a series \<Rightarrow> 'a list" where
  "dropna [] = []"
| "dropna (x # xs) = (case x of None \<Rightarrow> dropna xs | Some v \<Rightarrow> v # dropna xs)"

text \<open>\<open>s.count()\<close>: the number of non-missing cells.\<close>

definition count :: "'a series \<Rightarrow> nat" where
  "count s = length (dropna s)"

text \<open>\<open>len(s.dropna().unique())\<close>: the number of distinct non-missing values.\<close>

definition nunique :: "'a series \<Rightarrow> nat" where
  "nunique s = length (remdups (dropna s))"

text \<open>
  A whole-series conversion (\<open>pd.to_datetime(s)\<close>, \<open>s.astype(float)\<close>): every
  non-missing cell must convert, or the conversion raises; missing cells stay missing.
\<close>

fun parse_series :: "('a \<Rightarrow> 'b option) \<Rightarrow> 'a series \<Rightarrow> 'b series option" where
  "parse_series f [] = Some []"
| "parse_series f (None # xs) = map_option (Cons None) (parse_series f xs)"
| "parse_series f (Some x # xs) =
     (case f x of
        None \<Rightarrow> None
      | Some y \<Rightarrow> map_option (Cons (Some y)) (parse_series f xs))"

section \<open>Numbers\<close>

text \<open>
  \<open>astype(np.int64)\<close> and Python's \<open>int()\<close> truncate towards zero; HOL's \<open>floor\<close>
  rounds down, so truncation is written out.
\<close>

definition ptrunc :: "real \<Rightarrow> int" where
  "ptrunc x = (if 0 \<le> x then \<lfloor>x\<rfloor> else - \<lfloor>- x\<rfloor>)"

text \<open>
  \<open>u < np.sqrt(n)\<close> for counts \<open>u\<close>, \<open>n\<close>; executed as a comparison of squares.
\<close>

definition less_sqrt :: "nat \<Rightarrow> nat \<Rightarrow> bool" where
  "less_sqrt u n \<longleftrightarrow> real u < sqrt (real n)"

text \<open>\<open>int(np.sqrt(n))\<close> is the integer square root of \<open>n\<close>.\<close>

definition isqrt :: "nat \<Rightarrow> nat" where
  "isqrt n = nat \<lfloor>sqrt (real n)\<rfloor>"

text \<open>An executable search for \<open>isqrt\<close>: count \<open>m\<close> up while \<open>(m + 1)\<^sup>2 \<le> n\<close>.\<close>

function isqrt_from :: "nat \<Rightarrow> nat \<Rightarrow> nat" where
  "isqrt_from n m = (if n < Suc m * Suc m then m else isqrt_from n (Suc m))"
  by auto
termination
  by (relation "measure (\<lambda>(n, m). n - m)") (auto simp: not_less intro: diff_less_mono2 le_trans [OF le_square])

section \<open>Sample statistics\<close>

text \<open>A comparison with NaN (\<open>None\<close>) is false.\<close>

definition nan_less :: "real option \<Rightarrow> real \<Rightarrow> bool" where
  "nan_less x c = (case x of None \<Rightarrow> False | Some v \<Rightarrow> v < c)"

text \<open>
  pandas' \<open>mean\<close> and \<open>std\<close> (sample standard deviation, \<open>ddof = 1\<close>). The
  standard deviation of fewer than two values is NaN, here \<open>None\<close>; every comparison
  with NaN is false.
\<close>

definition mean :: "real list \<Rightarrow> real" where
  "mean xs = sum_list xs / real (length xs)"

definition sample_var :: "real list \<Rightarrow> real option" where
  "sample_var xs =
     (if length xs < 2 then None
      else Some (sum_list (map (\<lambda>x. (x - mean xs)\<^sup>2) xs) / real (length xs - 1)))"

definition sample_std :: "real list \<Rightarrow> real option" where
  "sample_std xs = map_option sqrt (sample_var xs)"

text \<open>\<open>np.std\<close>: the population standard deviation (\<open>ddof = 0\<close>).\<close>

definition pop_std :: "real list \<Rightarrow> real" where
  "pop_std xs = sqrt (sum_list (map (\<lambda>x. (x - mean xs)\<^sup>2) xs) / real (length xs))"

text \<open>
  \<open>s.std() < c\<close> and \<open>s.std() == 0\<close> of pandas, executed through the variance.
\<close>

definition std_less :: "real list \<Rightarrow> real \<Rightarrow> bool" where
  "std_less xs c \<longleftrightarrow> nan_less (sample_std xs) c"

definition std_zero :: "real list \<Rightarrow> bool" where
  "std_zero xs \<longleftrightarrow> sample_std xs = Some 0"

section \<open>Strings\<close>

text \<open>
  Decimal digits as the regular expression \<open>\d\<close> matches them (ASCII), and Python's
  \<open>str\<close> of an integer.
\<close>

definition is_digit :: "char \<Rightarrow> bool" where
  "is_digit c \<longleftrightarrow> CHR ''0'' \<le> c \<and> c \<le> CHR ''9''"

definition digit_val :: "char \<Rightarrow> nat" where
  "digit_val c = of_char c - of_char CHR ''0''"

text \<open>\<open>int(s)\<close> of a string of decimal digits.\<close>

definition digits_nat :: "string \<Rightarrow> nat" where
  "digits_nat s = foldl (\<lambda>acc c. 10 * acc + digit_val c) 0 s"

fun nat_str :: "nat \<Rightarrow> string" where
  "nat_str n = (if n < 10 then [char_of (48 + n)]
                else nat_str (n div 10) @ [char_of (48 + n mod 10)])"

declare nat_str.simps [simp del]

definition int_str :: "int \<Rightarrow> string" where
  "int_str i = (if i < 0 then CHR ''-'' # nat_str (nat (- i)) else nat_str (nat i))"

section \<open>Lemmas on series\<close>

lemma dropna_map_option [simp]: "dropna (map (map_option f) s) = map f (dropna s)"
  by (induction s) (auto split: option.splits)

lemma dropna_append [simp]: "dropna (xs @ ys) = dropna xs @ dropna ys"
  by (induction xs) (auto split: option.splits)

lemma set_dropna [simp]: "set (dropna s) = {v. Some v \<in> set s}"
  by (induction s) (auto split: option.splits)

lemma length_dropna_le: "length (dropna s) \<le> length s"
  by (induction s) (auto split: option.splits)

lemma nunique_le_count: "nunique s \<le> count s"
  by (simp add: nunique_def count_def length_remdups_leq)

lemma nunique_pos: "0 < count s \<Longrightarrow> 0 < nunique s"
  by (auto simp: nunique_def count_def)

lemma count_map_option [simp]: "count (map (map_option f) s) = count s"
  by (simp add: count_def)

lemma parse_series_Some_iff:
  "(\<exists>t. parse_series f s = Some t) \<longleftrightarrow> list_all (\<lambda>x. f x \<noteq> None) (dropna s)"
  by (induction f s rule: parse_series.induct) (auto split: option.splits)

lemma parse_series_None_iff:
  "parse_series f s = None \<longleftrightarrow> list_ex (\<lambda>x. f x = None) (dropna s)"
  using parse_series_Some_iff [of f s] by (auto simp: list_ex_iff list_all_iff)

lemma parse_series_dropna:
  "parse_series f s = Some t \<Longrightarrow> map Some (dropna t) = map f (dropna s)"
  by (induction f s arbitrary: t rule: parse_series.induct) (auto split: option.splits)

lemma parse_series_count:
  "parse_series f s = Some t \<Longrightarrow> count t = count s"
  using parse_series_dropna [of f s t] by (metis count_def length_map)

section \<open>Lemmas on numbers\<close>

lemma ptrunc_of_int [simp]: "ptrunc (real_of_int k) = k"
  by (simp add: ptrunc_def)

lemma ptrunc_integral: "x \<in> \<int> \<Longrightarrow> real_of_int (ptrunc x) = x"
  by (auto elim: Ints_cases)

text \<open>The part truncation removes has the sign of the value.\<close>

lemma ptrunc_nonneg_frac: "0 \<le> x \<Longrightarrow> 0 \<le> x - real_of_int (ptrunc x)"
  by (simp add: ptrunc_def)

lemma ptrunc_nonpos_frac: "x \<le> 0 \<Longrightarrow> x - real_of_int (ptrunc x) \<le> 0"
  by (auto simp: ptrunc_def) linarith

lemma ptrunc_eq_iff_integral: "real_of_int (ptrunc x) = x \<longleftrightarrow> x \<in> \<int>"
  by (metis Ints_of_int ptrunc_integral)

text \<open>
  \<open>n < np.sqrt(m)\<close> for counts is a comparison of squares; the classifier's
  cardinality tests are evaluated through it.
\<close>

lemma sqrt_of_square_nat: "sqrt (real (u * u)) = real u"
  by (simp only: of_nat_mult real_sqrt_abs2)

lemma less_sqrt_nat_iff [eval_simps]: "real u < sqrt (real n) \<longleftrightarrow> u * u < n"
proof -
  have "real u < sqrt (real n) \<longleftrightarrow> sqrt (real (u * u)) < sqrt (real n)"
    by (simp only: sqrt_of_square_nat)
  also have "\<dots> \<longleftrightarrow> u * u < n"
    by (simp only: real_sqrt_less_iff of_nat_less_iff)
  finally show ?thesis .
qed

lemma sqrt_less_nat_iff: "sqrt (real n) < real u \<longleftrightarrow> n < u * u"
proof -
  have "sqrt (real n) < real u \<longleftrightarrow> sqrt (real n) < sqrt (real (u * u))"
    by (simp only: sqrt_of_square_nat)
  also have "\<dots> \<longleftrightarrow> n < u * u"
    by (simp only: real_sqrt_less_iff of_nat_less_iff)
  finally show ?thesis .
qed

lemma less_sqrt_code [code, eval_simps]: "less_sqrt u n \<longleftrightarrow> u * u < n"
  by (simp add: less_sqrt_def less_sqrt_nat_iff)

lemma isqrt_eqI:
  assumes "k * k \<le> n" and "n < Suc k * Suc k"
  shows "isqrt n = k"
proof -
  have lo: "real k \<le> sqrt (real n)"
    using assms(1) less_sqrt_nat_iff [of n k] sqrt_of_square_nat [of k]
    by (metis not_less real_sqrt_le_iff of_nat_le_iff)
  have "sqrt (real n) < real (Suc k)"
    using assms(2) by (simp only: sqrt_less_nat_iff)
  then have hi: "sqrt (real n) < real k + 1" by simp
  have "\<lfloor>sqrt (real n)\<rfloor> = int k"
    using lo hi by (simp add: floor_eq_iff)
  then show ?thesis by (simp add: isqrt_def)
qed

lemma isqrt_from_bounds: "m * m \<le> n \<Longrightarrow> isqrt_from n m * isqrt_from n m \<le> n \<and> n < Suc (isqrt_from n m) * Suc (isqrt_from n m)"
proof (induction n m rule: isqrt_from.induct)
  case (1 n m)
  show ?case
  proof (cases "n < Suc m * Suc m")
    case True
    with "1.prems" show ?thesis by (simp add: isqrt_from.simps [of n m])
  next
    case False
    then have "Suc m * Suc m \<le> n" by simp
    with "1.IH" [OF False] False show ?thesis by (simp add: isqrt_from.simps [of n m])
  qed
qed

lemma isqrt_code [code]: "isqrt n = isqrt_from n 0"
  using isqrt_from_bounds [of 0 n] by (intro isqrt_eqI) simp_all

lemma isqrt_square: "isqrt n * isqrt n \<le> n"
proof -
  have "real (isqrt n) \<le> sqrt (real n)" by (simp add: isqrt_def)
  then have "\<not> sqrt (real n) < real (isqrt n)" by simp
  then show ?thesis by (metis sqrt_less_nat_iff not_less)
qed

section \<open>Lemmas on sample statistics\<close>

lemma sum_sq_dev_nonneg: "0 \<le> sum_list (map (\<lambda>x. (x - m)\<^sup>2) xs)"
  for m :: real by (induction xs) auto

lemma sum_sq_dev_zero_iff:
  "sum_list (map (\<lambda>x. (x - m)\<^sup>2) xs) = 0 \<longleftrightarrow> (\<forall>x\<in>set xs. x = m)"
  for m :: real
proof (induction xs)
  case Nil
  then show ?case by simp
next
  case (Cons a xs)
  have "0 \<le> sum_list (map (\<lambda>x. (x - m)\<^sup>2) xs)" by (rule sum_sq_dev_nonneg)
  moreover have "0 \<le> (a - m)\<^sup>2" by simp
  ultimately show ?case using Cons.IH by (simp add: add_nonneg_eq_0_iff)
qed

lemma sample_var_nonneg: "sample_var xs = Some v \<Longrightarrow> 0 \<le> v"
  by (auto simp: sample_var_def sum_sq_dev_nonneg split: if_splits)

lemma mean_replicate: "0 < n \<Longrightarrow> mean (replicate n c) = c"
  by (simp add: mean_def sum_list_replicate)

lemma all_eq_mean: "xs \<noteq> [] \<Longrightarrow> \<forall>x\<in>set xs. x = c \<Longrightarrow> mean xs = c"
  by (metis length_greater_0_conv mean_replicate replicate_length_same)

text \<open>The sample standard deviation is zero exactly on two or more equal values.\<close>

lemma all_eq_hd_iff_mean:
  assumes "xs \<noteq> []"
  shows "(\<forall>x\<in>set xs. x = mean xs) \<longleftrightarrow> (\<forall>x\<in>set xs. x = hd xs)"
proof
  assume all: "\<forall>x\<in>set xs. x = mean xs"
  then have "hd xs = mean xs" using assms by simp
  with all show "\<forall>x\<in>set xs. x = hd xs" by simp
next
  assume "\<forall>x\<in>set xs. x = hd xs"
  then show "\<forall>x\<in>set xs. x = mean xs" using all_eq_mean [OF assms] by simp
qed

lemma sample_std_zero_iff:
  "sample_std xs = Some 0 \<longleftrightarrow> 2 \<le> length xs \<and> (\<forall>x\<in>set xs. x = hd xs)"
proof (cases "length xs < 2")
  case True
  then show ?thesis by (simp add: sample_std_def sample_var_def)
next
  case False
  then have ne: "xs \<noteq> []" and pos: "0 < real (length xs - 1)" by auto
  have "sample_std xs = Some 0 \<longleftrightarrow>
        sum_list (map (\<lambda>x. (x - mean xs)\<^sup>2) xs) / real (length xs - 1) = 0"
    using False by (simp add: sample_std_def sample_var_def)
  also have "\<dots> \<longleftrightarrow> (\<forall>x\<in>set xs. x = mean xs)"
    using pos by (simp add: sum_sq_dev_zero_iff)
  also have "\<dots> \<longleftrightarrow> (\<forall>x\<in>set xs. x = hd xs)"
    by (rule all_eq_hd_iff_mean [OF ne])
  finally show ?thesis using False by simp
qed

text \<open>\<open>std < c\<close> for a positive constant is a comparison of the variance with \<open>c\<^sup>2\<close>.\<close>

lemma sqrt_less_pos_iff: "0 < c \<Longrightarrow> sqrt v < c \<longleftrightarrow> v < c\<^sup>2"
  using real_sqrt_less_iff [of v "c\<^sup>2"] by simp

lemma sample_std_less_iff:
  assumes "0 < c"
  shows "nan_less (sample_std xs) c \<longleftrightarrow> nan_less (sample_var xs) (c\<^sup>2)"
  using assms by (simp add: nan_less_def sample_std_def sqrt_less_pos_iff split: option.split)

lemma std_less_code [code, eval_simps]:
  "std_less xs c \<longleftrightarrow> 0 < c \<and> nan_less (sample_var xs) (c\<^sup>2)"
proof (cases "0 < c")
  case True
  then show ?thesis by (simp add: std_less_def sample_std_less_iff)
next
  case False
  have "\<not> sqrt v < c" if "sample_var xs = Some v" for v
    using False sample_var_nonneg [OF that] by (metis not_less order.trans real_sqrt_ge_zero)
  with False show ?thesis
    by (auto simp: std_less_def nan_less_def sample_std_def split: option.splits)
qed

lemma std_zero_code [code, eval_simps]:
  "std_zero xs \<longleftrightarrow> 2 \<le> length xs \<and> list_all (\<lambda>x. x = hd xs) xs"
  by (simp add: std_zero_def sample_std_zero_iff list_all_iff)

section \<open>Lemmas on strings\<close>

lemma nat_str_nonempty: "nat_str n \<noteq> []"
  by (subst nat_str.simps) simp

lemma digit_char: "d < 10 \<Longrightarrow> is_digit (char_of (48 + d)) \<and> digit_val (char_of (48 + d)) = d"
  by (simp add: is_digit_def digit_val_def less_eq_char_def)

lemma nat_str_digits: "\<forall>c\<in>set (nat_str n). is_digit c"
  by (induction n rule: nat_str.induct) (subst nat_str.simps, simp add: digit_char)

lemma digits_nat_snoc: "digits_nat (xs @ [c]) = 10 * digits_nat xs + digit_val c"
  by (simp add: digits_nat_def)

lemma digits_nat_nat_str: "digits_nat (nat_str n) = n"
proof (induction n rule: nat_str.induct)
  case (1 n)
  show ?case
  proof (cases "n < 10")
    case True
    then show ?thesis using digit_char [of n] by (simp add: nat_str.simps [of n] digits_nat_def)
  next
    case False
    then have "digits_nat (nat_str n) = 10 * (n div 10) + n mod 10"
      using "1.IH" digit_char [of "n mod 10"] by (simp add: nat_str.simps [of n] digits_nat_snoc)
    then show ?thesis by simp
  qed
qed

end
