(* ===== verification/Column.thy ===== *)
theory Column
  imports Prelude
begin

text \<open>
  The Column Classifier, \<open>dtype_detection\<close> of \<open>src/reportgen/analysis.py\<close>
  (lines 97--210). A pandas column is a \<open>column\<close>: its storage kind (the dtype) and its
  cells. The classifier returns the \<open>result\<close> dictionary (or \<open>None\<close> for an unknown
  dtype) together with the column as it left it, since the Python code rewrites the
  column of the caller's data frame in place. The two conversions the code delegates to
  libraries, \<open>pd.to_datetime\<close> on a string and \<open>float()\<close> on a string, are parameters
  (the record \<open>parsers\<close>): every lemma holds for any parsers, and the witnesses use the
  concrete ones defined at the end.
\<close>

section \<open>Cells, columns and results\<close>

text \<open>A non-missing cell of an object column: a Python string or a Python integer.\<close>

datatype pyobj = PStr string | PInt int

text \<open>
  Sorting the distinct values of an object column (\<open>astype('category')\<close> sorts its
  categories) uses pandas' \<open>safe_sort\<close>: on a column mixing numbers and strings the
  numbers come first, then the strings; strings compare as Python compares them, by code
  point, lexicographically.
\<close>

instantiation pyobj :: linorder
begin

fun less_eq_pyobj :: "pyobj \<Rightarrow> pyobj \<Rightarrow> bool" where
  "less_eq_pyobj (PInt a) (PInt b) = (a \<le> b)"
| "less_eq_pyobj (PInt a) (PStr y) = True"
| "less_eq_pyobj (PStr x) (PInt b) = False"
| "less_eq_pyobj (PStr x) (PStr y) = (x \<le> y)"

definition less_pyobj :: "pyobj \<Rightarrow> pyobj \<Rightarrow> bool" where
  "less_pyobj a b \<longleftrightarrow> a \<le> b \<and> \<not> b \<le> a"

instance
proof
  fix x y z :: pyobj
  show "x < y \<longleftrightarrow> x \<le> y \<and> \<not> y \<le> x" by (simp add: less_pyobj_def)
  show "x \<le> x" by (cases x) simp_all
  show "x \<le> y \<Longrightarrow> y \<le> z \<Longrightarrow> x \<le> z"
    by (cases x; cases y; cases z) auto
  show "x \<le> y \<Longrightarrow> y \<le> x \<Longrightarrow> x = y"
    by (cases x; cases y) auto
  show "x \<le> y \<or> y \<le> x"
    by (cases x; cases y) auto
qed

end

text \<open>Python's \<open>'%s' % x\<close> of a cell.\<close>

fun pystr :: "pyobj \<Rightarrow> string" where
  "pystr (PStr s) = s"
| "pystr (PInt i) = int_str i"

text \<open>\<open>pandas.api.types.is_number\<close>: true of a Python number, false of any string.\<close>

fun is_number :: "pyobj \<Rightarrow> bool" where
  "is_number (PStr s) = False"
| "is_number (PInt i) = True"

text \<open>A category label: a number, an object or a timestamp (nanoseconds since the epoch).\<close>

datatype scalar = SNum real | SObj pyobj | SDt int

text \<open>
  The storage kinds the classifier distinguishes: numeric (\<open>int64\<close>/\<open>float64\<close>; the
  values are kept as reals), object (strings and Python integers), \<open>datetime64\<close>,
  categorical (categories, the ordered flag, the cells) and any other dtype.
\<close>

datatype column =
    NumCol "real series"
  | ObjCol "pyobj series"
  | DtCol "int series"
  | CatCol "scalar list" bool "scalar series"
  | OtherCol

datatype vtype = Number | Category | Datetime | Text | Text_st | Group_number

text \<open>
  The result dictionary \<open>{'name', 'vtype', 'ordered', 'categories'}\<close>; \<open>vlist\<close> is the
  key \<open>var_detection\<close> adds later (\<open>None\<close> while the key is absent).
\<close>

record result =
  name :: string
  vtype :: vtype
  ordered :: bool
  categories :: "scalar list"
  vlist :: "string list option"

definition mk_result :: "string \<Rightarrow> vtype \<Rightarrow> bool \<Rightarrow> scalar list \<Rightarrow> result" where
  "mk_result c t b cs = \<lparr>name = c, vtype = t, ordered = b, categories = cs, vlist = None\<rparr>"

text \<open>The conversions the classifier calls and does not implement.\<close>

record parsers =
  to_datetime :: "string \<Rightarrow> int option"
  to_float :: "string \<Rightarrow> real option"

section \<open>Shared column operations\<close>

text \<open>
  \<open>s.astype('category')\<close>: the categories are the sorted distinct non-missing values,
  the ordered flag is false, the cells keep their values.
\<close>

definition to_category :: "('a::linorder \<Rightarrow> scalar) \<Rightarrow> 'a series \<Rightarrow> column" where
  "to_category f s = CatCol (map f (sort (remdups (dropna s)))) False (map (map_option f) s)"

fun astype_category :: "column \<Rightarrow> column" where
  "astype_category (NumCol s) = to_category SNum s"
| "astype_category (ObjCol s) = to_category SObj s"
| "astype_category (DtCol s) = to_category SDt s"
| "astype_category c = c"

text \<open>\<open>len(data[c].dropna().unique())\<close> of a column.\<close>

fun col_nunique :: "column \<Rightarrow> nat" where
  "col_nunique (NumCol s) = nunique s"
| "col_nunique (ObjCol s) = nunique s"
| "col_nunique (DtCol s) = nunique s"
| "col_nunique (CatCol cs b s) = nunique s"
| "col_nunique OtherCol = 0"

fun is_datetime :: "column \<Rightarrow> bool" where
  "is_datetime (DtCol s) = True"
| "is_datetime c = False"

text \<open>\<open>s.value_counts()\<close>: each distinct non-missing value with its number of occurrences.\<close>

definition value_counts :: "'a series \<Rightarrow> ('a \<times> nat) list" where
  "value_counts s = map (\<lambda>v. (v, count_list (dropna s) v)) (remdups (dropna s))"

text \<open>\<open>s.value_counts().mean() >= 2\<close>; the mean of no counts is NaN, and the test fails.\<close>

definition vc_mean_ge2 :: "'a series \<Rightarrow> bool" where
  "vc_mean_ge2 s = (value_counts s \<noteq> [] \<and> 2 \<le> mean (map (\<lambda>p. real (snd p)) (value_counts s)))"

section \<open>The numeric branch (lines 138--150)\<close>

text \<open>
  Line 143--144: when the truncated non-missing values sum to the same total as the
  values, every non-missing value is replaced by its truncation.
\<close>

definition int_fix :: "real series \<Rightarrow> real series" where
  "int_fix s =
     (if sum_list (map (\<lambda>x. real_of_int (ptrunc x)) (dropna s)) = sum_list (dropna s)
      then map (map_option (\<lambda>x. real_of_int (ptrunc x))) s else s)"

text \<open>Line 145: the category test, with \<open>n_sample\<close> the count of the column on entry.\<close>

definition num_is_category :: "bool \<Rightarrow> nat \<Rightarrow> real series \<Rightarrow> bool" where
  "num_is_category cat_det n s \<longleftrightarrow>
     cat_det \<and> less_sqrt (nunique s) n \<and> vc_mean_ge2 s"

definition num_detection :: "bool \<Rightarrow> string \<Rightarrow> real series \<Rightarrow> result \<times> column" where
  "num_detection cat_det c s =
     (let s1 = int_fix s in
      if num_is_category cat_det (count s) s1
      then (mk_result c Category False (map SNum (sort (remdups (dropna s1)))),
            to_category SNum s1)
      else (mk_result c Number False [], NumCol s1))"

section \<open>The string branch (lines 151--202)\<close>

text \<open>
  Line 153--154: the lengths of \<open>'%s' % x\<close> of the cells, leaving out the cells whose text
  is \<open>nan\<close> (the missing cells and the string \<open>'nan'\<close>).
\<close>

definition str_lens :: "pyobj series \<Rightarrow> nat list" where
  "str_lens s = map (\<lambda>v. length (pystr v)) (filter (\<lambda>v. pystr v \<noteq> ''nan'') (dropna s))"

text \<open>
  Line 155: no cell is a number, the longest text has 8 to 19 characters, and the sample
  standard deviation of the lengths is below 0.1 (NaN, and so false, under two lengths).
\<close>

definition looks_like_datetime :: "pyobj series \<Rightarrow> bool" where
  "looks_like_datetime s \<longleftrightarrow>
     \<not> list_ex is_number (dropna s) \<and> str_lens s \<noteq> [] \<and>
     7 < Max (set (str_lens s)) \<and> Max (set (str_lens s)) < 20 \<and>
     std_less (map real (str_lens s)) (1 / 10)"

text \<open>
  \<open>pd.to_datetime(data[c])\<close> (line 157): strings go through the parser, Python integers
  are nanoseconds since the epoch; if one string does not parse the call raises, the
  bare \<open>except\<close> of line 158 catches it and the column stays as it was.
\<close>

fun dt_cell :: "parsers \<Rightarrow> pyobj \<Rightarrow> int option" where
  "dt_cell P (PStr x) = to_datetime P x"
| "dt_cell P (PInt i) = Some i"

definition try_to_datetime :: "parsers \<Rightarrow> pyobj series \<Rightarrow> column" where
  "try_to_datetime P s =
     (case parse_series (dt_cell P) s of None \<Rightarrow> ObjCol s | Some t \<Rightarrow> DtCol t)"

text \<open>
  Lines 164--169: the factor collapse. With \<open>datetime_to_category\<close> the column becomes
  categorical when it has fewer distinct values than the square root of \<open>n_sample\<close>;
  without it, the same test applies only to a column that did not become a datetime.
\<close>

definition factor_collapse :: "bool \<Rightarrow> nat \<Rightarrow> column \<Rightarrow> column" where
  "factor_collapse dt2cat n col =
     (if (dt2cat \<or> \<not> is_datetime col) \<and> less_sqrt (col_nunique col) n
      then astype_category col else col)"

text \<open>
  Line 172--173: the percent conversion. The \<open>.str\<close> accessor raises
  \<open>AttributeError\<close> on an object column with values and no string; \<open>str.contains('%')\<close>
  is NaN, which \<open>all\<close> takes as true, on a missing or non-string cell;
  \<open>str.strip('%')\<close> turns a non-string into NaN; \<open>astype(np.float64)\<close> raises
  \<open>ValueError\<close> on a string \<open>float()\<close> rejects, and nothing catches it.
\<close>

definition str_accessor_ok :: "pyobj series \<Rightarrow> bool" where
  "str_accessor_ok s \<longleftrightarrow> dropna s = [] \<or> list_ex (\<lambda>v. \<not> is_number v) (dropna s)"

fun has_pct :: "pyobj option \<Rightarrow> bool" where
  "has_pct (Some (PStr x)) = (CHR ''%'' \<in> set x)"
| "has_pct c = True"

definition strip_pct :: "string \<Rightarrow> string" where
  "strip_pct x =
     rev (dropWhile (\<lambda>ch. ch = CHR ''%'') (rev (dropWhile (\<lambda>ch. ch = CHR ''%'') x)))"

fun strip_cell :: "pyobj option \<Rightarrow> string option" where
  "strip_cell (Some (PStr x)) = Some (strip_pct x)"
| "strip_cell c = None"

definition pct_convert :: "parsers \<Rightarrow> pyobj series \<Rightarrow> pyerr + column" where
  "pct_convert P s =
     (if \<not> str_accessor_ok s then Inl AttributeError
      else if list_all has_pct s then
        (case parse_series (to_float P) (map strip_cell s) of
           None \<Rightarrow> Inl ValueError
         | Some t \<Rightarrow> Inr (NumCol (map (map_option (\<lambda>v. v / 100)) t)))
      else Inr (ObjCol s))"

fun percent_step :: "parsers \<Rightarrow> column \<Rightarrow> pyerr + column" where
  "percent_step P (ObjCol s) = pct_convert P s"
| "percent_step P col = Inr col"

text \<open>
  Lines 188--191: the characters common to the first value and every non-empty string
  cell, \<open>set(first) & set(x) & ...\<close>, kept as a list.
\<close>

definition common_chars :: "string \<Rightarrow> pyobj series \<Rightarrow> char list" where
  "common_chars f s =
     fold (\<lambda>c k. case c of
                   Some (PStr x) \<Rightarrow> if x \<noteq> [] then filter (\<lambda>ch. ch \<in> set x) k else k
                 | _ \<Rightarrow> k) s (remdups f)"

text \<open>\<open>s.dropna().iloc[0]\<close>: \<open>IndexError\<close> on a series with no value.\<close>

definition first_valid :: "'a series \<Rightarrow> pyerr + 'a" where
  "first_valid s = (case dropna s of [] \<Rightarrow> Inl IndexError | v # vs \<Rightarrow> Inr v)"

text \<open>
  Lines 183--195: the structured-text test on a column that is neither categorical nor a
  datetime. A first value that is not a string (a number after the percent conversion, a
  Python integer) is not iterable and gives \<open>text\<close>.
\<close>

fun structured_vtype :: "column \<Rightarrow> pyerr + vtype" where
  "structured_vtype (ObjCol s) =
     (case first_valid s of
        Inl e \<Rightarrow> Inl e
      | Inr (PInt i) \<Rightarrow> Inr Text
      | Inr (PStr f) \<Rightarrow> Inr (if common_chars f s = [] then Text else Text_st))"
| "structured_vtype (NumCol s) =
     (case first_valid s of Inl e \<Rightarrow> Inl e | Inr v \<Rightarrow> Inr Text)"
| "structured_vtype col = Inr Text"

text \<open>Lines 175--202: the type the string branch reports for the column it produced.\<close>

fun str_result :: "bool \<Rightarrow> nat list \<Rightarrow> string \<Rightarrow> column \<Rightarrow> pyerr + result" where
  "str_result st lens c (CatCol cs b s) = Inr (mk_result c Category b cs)"
| "str_result st lens c (DtCol s) = Inr (mk_result c Datetime False [])"
| "str_result st lens c col =
     (if st \<and> std_zero (map real lens)
      then (case structured_vtype col of
              Inl e \<Rightarrow> Inl e
            | Inr t \<Rightarrow> Inr (mk_result c t False []))
      else (case col of
              NumCol s \<Rightarrow> Inr (mk_result c Number False [])
            | _ \<Rightarrow> Inr (mk_result c Text False [])))"

definition str_detection ::
  "parsers \<Rightarrow> bool \<Rightarrow> bool \<Rightarrow> string \<Rightarrow> pyobj series \<Rightarrow> pyerr + result \<times> column" where
  "str_detection P st dt2cat c s =
     (let n = count s;
          lens = str_lens s;
          col1 = (if looks_like_datetime s then try_to_datetime P s else ObjCol s);
          col2 = factor_collapse dt2cat n col1
      in case percent_step P col2 of
           Inl e \<Rightarrow> Inl e
         | Inr col3 \<Rightarrow>
             (case str_result st lens c col3 of
                Inl e \<Rightarrow> Inl e
              | Inr r \<Rightarrow> Inr (r, col3)))"

section \<open>The classifier (lines 97--210)\<close>

text \<open>
  Dispatch on the dtype: numeric, string (object), datetime, and anything else (a
  categorical column included: pandas' \<open>is_string_dtype\<close> excludes it), which prints
  \<open>unknown dtype!\<close> and returns \<open>None\<close>.
\<close>

fun dtype_detection ::
  "parsers \<Rightarrow> bool \<Rightarrow> bool \<Rightarrow> bool \<Rightarrow> string \<Rightarrow> column \<Rightarrow> pyerr + result option \<times> column"
where
  "dtype_detection P cd st dt2cat c (NumCol s) =
     (case num_detection cd c s of (r, col) \<Rightarrow> Inr (Some r, col))"
| "dtype_detection P cd st dt2cat c (ObjCol s) =
     (case str_detection P st dt2cat c s of Inl e \<Rightarrow> Inl e | Inr (r, col) \<Rightarrow> Inr (Some r, col))"
| "dtype_detection P cd st dt2cat c (DtCol s) =
     Inr (Some (mk_result c Datetime False []), DtCol s)"
| "dtype_detection P cd st dt2cat c col = Inr (None, col)"

section \<open>Concrete parsers for the witnesses\<close>

text \<open>
  \<open>float()\<close> on plain decimals: an optional sign, digits, an optional point and digits,
  at least one digit. Python accepts more (exponents, \<open>inf\<close>, blanks); the lemmas
  above hold for any parser, and the witnesses use only plain decimals.
\<close>

definition all_digits :: "string \<Rightarrow> bool" where
  "all_digits s \<longleftrightarrow> list_all is_digit s"

definition parse_unsigned :: "string \<Rightarrow> real option" where
  "parse_unsigned s =
     (let ip = takeWhile (\<lambda>ch. ch \<noteq> CHR ''.'') s;
          rest = dropWhile (\<lambda>ch. ch \<noteq> CHR ''.'') s;
          fp = drop 1 rest
      in if all_digits ip \<and> all_digits fp \<and> ip @ fp \<noteq> []
         then Some (real (digits_nat ip) + real (digits_nat fp) / 10 ^ length fp)
         else None)"

definition parse_decimal :: "string \<Rightarrow> real option" where
  "parse_decimal s =
     (case s of
        ch # r \<Rightarrow> if ch = CHR ''-'' then map_option uminus (parse_unsigned r)
                 else if ch = CHR ''+'' then parse_unsigned r
                 else parse_unsigned s
      | [] \<Rightarrow> None)"

text \<open>\<open>pd.to_datetime\<close> on ISO dates \<open>YYYY-MM-DD\<close>, to the ordinal \<open>yyyymmdd\<close>.\<close>

definition parse_iso_date :: "string \<Rightarrow> int option" where
  "parse_iso_date s =
     (if length s = 10 \<and> s ! 4 = CHR ''-'' \<and> s ! 7 = CHR ''-'' \<and>
         all_digits (take 4 s @ take 2 (drop 5 s) @ drop 8 s)
      then Some (int (digits_nat (take 4 s @ take 2 (drop 5 s) @ drop 8 s)))
      else None)"

definition std_parsers :: parsers where
  "std_parsers = \<lparr>to_datetime = parse_iso_date, to_float = parse_decimal\<rparr>"

section \<open>Witness inputs\<close>

text \<open>A numeric column of 100 rows with 8 distinct values (Section 8, property 7 of the spec).\<close>

definition score_col :: "real series" where
  "score_col = map (\<lambda>i. Some (real (i mod 8))) [0..<100]"

section \<open>Well-formed results\<close>

fun cat_of :: "column \<Rightarrow> (scalar list \<times> bool) option" where
  "cat_of (CatCol cs b s) = Some (cs, b)"
| "cat_of c = None"

fun is_numeric :: "column \<Rightarrow> bool" where
  "is_numeric (NumCol s) = True"
| "is_numeric c = False"

text \<open>
  What a result of the classifier promises about itself and about the column it leaves
  behind (Section 3 of the spec): the name of the column, no \<open>vlist\<close> yet, never
  ordered, never \<open>group_number\<close>; a category result carries exactly the non-empty
  categories of the categorical column it stored; a datetime or number result stands
  for a datetime or numeric column; all other results have no categories.
\<close>

definition wf_result :: "string \<Rightarrow> result \<Rightarrow> column \<Rightarrow> bool" where
  "wf_result c r col \<longleftrightarrow>
     name r = c \<and> vlist r = None \<and> \<not> ordered r \<and>
     (case vtype r of
        Category \<Rightarrow> categories r \<noteq> [] \<and> cat_of col = Some (categories r, False)
      | Datetime \<Rightarrow> categories r = [] \<and> is_datetime col
      | Number \<Rightarrow> categories r = [] \<and> is_numeric col
      | Group_number \<Rightarrow> False
      | _ \<Rightarrow> categories r = [])"

text \<open>The column the factor collapse leaves: categorical with non-empty, unordered categories, or as it was.\<close>

definition cat_ok :: "column \<Rightarrow> bool" where
  "cat_ok col \<longleftrightarrow> (case cat_of col of None \<Rightarrow> True | Some (cs, b) \<Rightarrow> cs \<noteq> [] \<and> \<not> b)"

section \<open>Lemmas on the numeric branch\<close>

lemmas digit_simps = digits_nat_def digit_val_def all_digits_def is_digit_def


lemma sum_count_list_remdups: "sum_list (map (count_list xs) (remdups xs)) = length xs"
proof -
  have "sum_list (map (count_list xs) (remdups xs)) = (\<Sum>v\<in>set xs. count_list xs v)"
    by (simp add: sum_list_distinct_conv_sum_set)
  also have "\<dots> = length xs"
    by (rule sum_count_set) simp_all
  finally show ?thesis .
qed

lemma value_counts_total: "sum_list (map snd (value_counts s)) = count s"
  by (simp add: value_counts_def count_def comp_def sum_count_list_remdups)

lemma vc_mean_ge2_iff: "vc_mean_ge2 s \<longleftrightarrow> 0 < nunique s \<and> 2 * nunique s \<le> count s"
proof -
  have len: "length (value_counts s) = nunique s" by (simp add: value_counts_def nunique_def)
  have tot: "sum_list (map (\<lambda>p. real (snd p)) (value_counts s)) = real (count s)"
    using value_counts_total [of s] using sum_list_of_nat [of "map snd (value_counts s)"] by (simp add: comp_def)
  show ?thesis
  proof (cases "nunique s = 0")
    case True
    then show ?thesis using len by (simp add: vc_mean_ge2_def)
  next
    case False
    then have "value_counts s \<noteq> []" using len by auto
    then have "vc_mean_ge2 s \<longleftrightarrow> 2 \<le> real (count s) / real (nunique s)"
      using len tot by (simp add: vc_mean_ge2_def mean_def)
    also have "\<dots> \<longleftrightarrow> real (2 * nunique s) \<le> real (count s)"
      using False by (simp add: le_divide_eq)
    also have "\<dots> \<longleftrightarrow> 2 * nunique s \<le> count s"
      by (rule of_nat_le_iff)
    finally show ?thesis using False by simp
  qed
qed

lemma num_is_category_iff:
  assumes "count s1 = n"
  shows "num_is_category cd n s1 \<longleftrightarrow> cd \<and> nunique s1 * nunique s1 < n"
proof -
  have mean_ok: "2 * nunique s1 \<le> n" if "nunique s1 * nunique s1 < n"
  proof (cases "nunique s1 \<le> 1")
    case True
    then have "nunique s1 = 0 \<or> nunique s1 = 1" by auto
    then show ?thesis using that by auto
  next
    case False
    then have "2 \<le> nunique s1" by simp
    then have "2 * nunique s1 \<le> nunique s1 * nunique s1" by (rule mult_right_mono) simp
    with that show ?thesis by linarith
  qed
  have pos: "0 < nunique s1" if "nunique s1 * nunique s1 < n"
    using that assms nunique_pos [of s1] by (cases "nunique s1") auto
  show ?thesis
    unfolding num_is_category_def less_sqrt_code vc_mean_ge2_iff assms
    using mean_ok pos by blast
qed

lemma int_fix_integral: "list_all (\<lambda>x. x \<in> \<int>) (dropna s) \<Longrightarrow> int_fix s = s"
proof -
  assume ints: "list_all (\<lambda>x. x \<in> \<int>) (dropna s)"
  have "map (map_option (\<lambda>x. real_of_int (ptrunc x))) s = s"
    using ints by (induction s) (auto split: option.splits simp: ptrunc_integral)
  then show ?thesis by (simp add: int_fix_def)
qed

lemma int_fix_idem: "int_fix (int_fix s) = int_fix s"
proof (cases "int_fix s = s")
  case True
  then show ?thesis by simp
next
  case False
  then have "int_fix s = map (map_option (\<lambda>x. real_of_int (ptrunc x))) s"
    by (simp add: int_fix_def split: if_splits)
  then have "list_all (\<lambda>x. x \<in> \<int>) (dropna (int_fix s))"
    by (simp add: list_all_iff)
  then show ?thesis by (rule int_fix_integral)
qed

lemma count_int_fix [simp]: "count (int_fix s) = count s"
  by (simp add: int_fix_def)

section \<open>The result invariant\<close>

lemma sort_remdups_Nil_iff [simp]: "sort (remdups xs) = [] \<longleftrightarrow> xs = []"
  by (metis length_0_conv length_sort remdups_eq_nil_iff)

lemma cat_of_to_category [simp]:
  "cat_of (to_category f s) = Some (map f (sort (remdups (dropna s))), False)"
  by (simp add: to_category_def)

lemma less_sqrt_count_pos: "less_sqrt (nunique s) (count s) \<Longrightarrow> 0 < nunique s"
  using nunique_pos [of s] by (cases "count s") (auto simp: less_sqrt_code)

lemma num_detection_wf:
  assumes "num_detection cd c s = (r, col)"
  shows "wf_result c r col"
proof (cases "num_is_category cd (count s) (int_fix s)")
  case True
  then have "0 < nunique (int_fix s)"
    by (simp add: num_is_category_def vc_mean_ge2_iff)
  then have "dropna (int_fix s) \<noteq> []" by (auto simp: nunique_def)
  with True assms show ?thesis
    by (auto simp: num_detection_def wf_result_def mk_result_def Let_def)
next
  case False
  with assms show ?thesis
    by (auto simp: num_detection_def wf_result_def mk_result_def Let_def)
qed

lemma factor_collapse_cat_ok:
  assumes "col1 = ObjCol s \<or> (\<exists>t. col1 = DtCol t \<and> count t = count s)"
  shows "cat_ok (factor_collapse dt2cat (count s) col1)"
proof (cases "(dt2cat \<or> \<not> is_datetime col1) \<and> less_sqrt (col_nunique col1) (count s)")
  case True
  from assms show ?thesis
  proof
    assume "col1 = ObjCol s"
    with True have "0 < nunique s" by (simp add: less_sqrt_count_pos)
    with \<open>col1 = ObjCol s\<close> True show ?thesis
      by (auto simp: factor_collapse_def cat_ok_def nunique_def)
  next
    assume "\<exists>t. col1 = DtCol t \<and> count t = count s"
    then obtain t where t: "col1 = DtCol t" "count t = count s" by blast
    with True have "0 < nunique t" using less_sqrt_count_pos [of t] by simp
    with t True show ?thesis
      by (auto simp: factor_collapse_def cat_ok_def nunique_def)
  qed
next
  case False
  with assms show ?thesis by (auto simp: factor_collapse_def cat_ok_def)
qed

lemma try_to_datetime_cases:
  "try_to_datetime P s = ObjCol s \<or> (\<exists>t. try_to_datetime P s = DtCol t \<and> count t = count s)"
  by (auto simp: try_to_datetime_def parse_series_count split: option.splits)

lemma percent_step_cat_of:
  "percent_step P col = Inr col' \<Longrightarrow> cat_of col' = cat_of col"
  by (cases col) (auto simp: pct_convert_def split: if_splits option.splits)

lemma structured_vtype_cases:
  "structured_vtype col = Inr t \<Longrightarrow> t = Text \<or> t = Text_st"
  by (cases col) (auto simp: first_valid_def split: sum.splits pyobj.splits list.splits if_splits)

lemma str_result_wf:
  assumes "str_result st lens c col = Inr r" and "cat_ok col"
  shows "wf_result c r col"
proof (cases col)
  case (CatCol cs b s)
  with assms show ?thesis by (auto simp: wf_result_def mk_result_def cat_ok_def)
next
  case (DtCol s)
  with assms show ?thesis by (auto simp: wf_result_def mk_result_def)
next
  case (NumCol s)
  with assms show ?thesis
    by (auto simp: wf_result_def mk_result_def split: if_splits sum.splits
        dest!: structured_vtype_cases)
next
  case (ObjCol s)
  with assms show ?thesis
    by (auto simp: wf_result_def mk_result_def split: if_splits sum.splits pyobj.splits
        dest!: structured_vtype_cases)
next
  case OtherCol
  with assms show ?thesis
    by (auto simp: wf_result_def mk_result_def split: if_splits sum.splits
        dest!: structured_vtype_cases)
qed

lemma str_detection_wf:
  assumes "str_detection P st dt2cat c s = Inr (r, col)"
  shows "wf_result c r col"
proof -
  define col1 where "col1 = (if looks_like_datetime s then try_to_datetime P s else ObjCol s)"
  have c1: "col1 = ObjCol s \<or> (\<exists>t. col1 = DtCol t \<and> count t = count s)"
    using try_to_datetime_cases [of P s] by (auto simp: col1_def)
  define col2 where "col2 = factor_collapse dt2cat (count s) col1"
  have ok2: "cat_ok col2" unfolding col2_def by (rule factor_collapse_cat_ok [OF c1])
  obtain col3 where p3: "percent_step P col2 = Inr col3"
    and r3: "str_result st (str_lens s) c col3 = Inr r" and eq: "col = col3"
    using assms by (auto simp: str_detection_def Let_def col1_def col2_def
        split: sum.splits)
  have "cat_ok col3"
    using ok2 percent_step_cat_of [OF p3] by (simp add: cat_ok_def)
  with r3 eq show ?thesis by (simp add: str_result_wf)
qed

text \<open>
  C1: every result the classifier returns is well formed, and agrees with the column it
  leaves in the table: a category result lists exactly the non-empty, unordered
  categories of the stored categorical column; a datetime or number result stands for a
  datetime or numeric column; other results have no categories; no result is a group.
\<close>

theorem dtype_detection_wf:
  assumes "dtype_detection P cd st dt2cat c col = Inr (Some r, col')"
  shows "wf_result c r col'"
proof (cases col)
  case (NumCol s)
  with assms have "num_detection cd c s = (r, col')" by (auto split: prod.splits)
  then show ?thesis by (rule num_detection_wf)
next
  case (ObjCol s)
  with assms have "str_detection P st dt2cat c s = Inr (r, col')"
    by (auto split: sum.splits prod.splits)
  then show ?thesis by (rule str_detection_wf)
next
  case (DtCol s)
  with assms show ?thesis by (auto simp: wf_result_def mk_result_def)
qed (use assms in auto)

lemma dtype_detection_wf_witness:
  "dtype_detection std_parsers True True True ''q'' (NumCol [Some 1, Some 1, Some 1, Some 2, Some 2, Some 2]) =
     Inr (Some (mk_result ''q'' Category False [SNum 1, SNum 2]),
          CatCol [SNum 1, SNum 2] False
            [Some (SNum 1), Some (SNum 1), Some (SNum 1), Some (SNum 2), Some (SNum 2), Some (SNum 2)]) \<and>
   wf_result ''q'' (mk_result ''q'' Category False [SNum 1, SNum 2])
     (CatCol [SNum 1, SNum 2] False [Some (SNum 1), Some (SNum 1), Some (SNum 1), Some (SNum 2), Some (SNum 2), Some (SNum 2)])"
proof -
  have run: "dtype_detection std_parsers True True True ''q'' (NumCol [Some 1, Some 1, Some 1, Some 2, Some 2, Some 2]) =
     Inr (Some (mk_result ''q'' Category False [SNum 1, SNum 2]),
          CatCol [SNum 1, SNum 2] False
            [Some (SNum 1), Some (SNum 1), Some (SNum 1), Some (SNum 2), Some (SNum 2), Some (SNum 2)])"
    by code_simp
  show ?thesis using run dtype_detection_wf [OF run] by simp
qed

section \<open>The numeric branch\<close>

lemma dtype_detection_NumCol:
  "dtype_detection P cd st dt2cat c (NumCol s) = Inr (Some r, col') \<longleftrightarrow> num_detection cd c s = (r, col')"
  by (auto split: prod.splits)

lemma num_detection_vtype:
  "num_detection cd c s = (r, col') \<Longrightarrow>
   vtype r = (if num_is_category cd (count s) (int_fix s) then Category else Number)"
  by (auto simp: num_detection_def mk_result_def Let_def split: if_splits)

text \<open>
  C5: a numeric column becomes a category exactly when category detection is on and the square of its number of distinct values (after the integral rewrite) is below its number of values; the test \<open>value_counts().mean() >= 2\<close> of line 145 never changes the outcome.
\<close>

theorem num_category_threshold:
  assumes "dtype_detection P cd st dt2cat c (NumCol s) = Inr (Some r, col')"
  shows "vtype r = Category \<longleftrightarrow> cd \<and> nunique (int_fix s) * nunique (int_fix s) < count s"
proof -
  have "num_detection cd c s = (r, col')" using assms by (simp only: dtype_detection_NumCol)
  then have "vtype r = (if num_is_category cd (count s) (int_fix s) then Category else Number)"
    by (rule num_detection_vtype)
  then show ?thesis by (simp add: num_is_category_iff)
qed

lemma num_category_threshold_witness:
  "(case dtype_detection std_parsers True True True ''score'' (NumCol score_col) of
      Inr (Some r, col) \<Rightarrow> vtype r = Category | _ \<Rightarrow> False) \<and>
   nunique (int_fix score_col) = 8 \<and> count score_col = 100"
proof -
  obtain r col where run: "dtype_detection std_parsers True True True ''score'' (NumCol score_col) = Inr (Some r, col)"
    by (cases "num_detection True ''score'' score_col") simp
  have n: "nunique (int_fix score_col) = 8" and m: "count score_col = 100"
    by (simp add: score_col_def; code_simp)+
  have "vtype r = Category" using num_category_threshold [OF run] n m by simp
  then show ?thesis using run n m by simp
qed

text \<open>
  The integral rewrite of lines 143--144 compares sums, not values: \<open>[1.5, -0.5]\<close>
  has truncated sum \<open>1 + 0 = 1.5 - 0.5\<close>, so the column is rewritten to \<open>[1, 0]\<close>.
\<close>

theorem int_fix_truncates_fractions:
  "dtype_detection std_parsers True True True ''x'' (NumCol [Some 1.5, Some (-0.5)]) =
     Inr (Some (mk_result ''x'' Number False []), NumCol [Some 1, Some 0])"
  by code_simp

text \<open>
  C19: classifying again a column the classifier left numeric gives the same result and leaves the column as it is.
\<close>

theorem number_reclassify_idem:
  assumes "dtype_detection P cd st dt2cat c (NumCol s) = Inr (Some r, NumCol s')"
  shows "dtype_detection P cd st dt2cat c (NumCol s') = Inr (Some r, NumCol s')"
proof -
  have run: "num_detection cd c s = (r, NumCol s')" using assms by (simp only: dtype_detection_NumCol)
  then have s': "s' = int_fix s" and nc: "\<not> num_is_category cd (count s) (int_fix s)"
    and r: "r = mk_result c Number False []"
    by (auto simp: num_detection_def Let_def to_category_def split: if_splits)
  have "int_fix s' = s'" by (simp add: s' int_fix_idem)
  moreover have "count s' = count s" by (simp add: s')
  ultimately show ?thesis using nc r s' by (simp add: num_detection_def)
qed

lemma number_reclassify_idem_witness:
  "dtype_detection std_parsers True True True ''x'' (NumCol [Some 1.5, Some (-0.5)]) =
     Inr (Some (mk_result ''x'' Number False []), NumCol [Some 1, Some 0]) \<and>
   dtype_detection std_parsers True True True ''x'' (NumCol [Some 1, Some 0]) =
     Inr (Some (mk_result ''x'' Number False []), NumCol [Some 1, Some 0])"
proof -
  have run: "dtype_detection std_parsers True True True ''x'' (NumCol [Some 1.5, Some (-0.5)]) =
     Inr (Some (mk_result ''x'' Number False []), NumCol [Some 1, Some 0])" by code_simp
  show ?thesis using run number_reclassify_idem [OF run] by simp
qed

section \<open>The string branch\<close>

lemma dtype_detection_ObjCol:
  "dtype_detection P cd st dt2cat c (ObjCol s) =
     (case str_detection P st dt2cat c s of Inl e \<Rightarrow> Inl e | Inr (r, col) \<Rightarrow> Inr (Some r, col))"
  by simp

text \<open>A column that is not taken for a datetime and is not collapsed reaches the percent step unchanged.\<close>

lemma str_detection_plain:
  assumes "\<not> looks_like_datetime s" and "\<not> less_sqrt (nunique s) (count s)"
  shows "str_detection P st dt2cat c s =
     (case pct_convert P s of
        Inl e \<Rightarrow> Inl e
      | Inr col3 \<Rightarrow> (case str_result st (str_lens s) c col3 of Inl e \<Rightarrow> Inl e | Inr r \<Rightarrow> Inr (r, col3)))"
  using assms by (simp add: str_detection_def factor_collapse_def Let_def)

text \<open>
  C20: an object column whose strings all contain \<open>%\<close> and parse once the \<open>%\<close> signs are stripped, which is neither taken for a datetime nor collapsed to a category, and whose text lengths are not all equal (or structured-text detection is off), becomes a numeric column of the parsed values divided by 100 and is reported as a number.
\<close>

theorem percent_column_number:
  assumes "\<not> looks_like_datetime s" and "\<not> less_sqrt (nunique s) (count s)"
    and "str_accessor_ok s" and "list_all has_pct s"
    and "parse_series (to_float P) (map strip_cell s) = Some t"
    and "\<not> (st \<and> std_zero (map real (str_lens s)))"
  shows "dtype_detection P cd st dt2cat c (ObjCol s) =
           Inr (Some (mk_result c Number False []), NumCol (map (map_option (\<lambda>v. v / 100)) t))"
  using assms by (auto simp: str_detection_plain pct_convert_def)

text \<open>
  C21: the same percent column, when structured-text detection is on and all its texts have the same length, is converted to numbers but reported as \<open>text\<close>: the structured-text test of line 183 comes before the number test of line 196 and a number is not iterable.
\<close>

theorem percent_column_equal_width_text:
  assumes "\<not> looks_like_datetime s" and "\<not> less_sqrt (nunique s) (count s)"
    and "str_accessor_ok s" and "list_all has_pct s"
    and "parse_series (to_float P) (map strip_cell s) = Some t"
    and "st" and "std_zero (map real (str_lens s))" and "dropna t \<noteq> []"
  shows "dtype_detection P cd st dt2cat c (ObjCol s) =
           Inr (Some (mk_result c Text False []), NumCol (map (map_option (\<lambda>v. v / 100)) t))"
  using assms by (simp add: str_detection_plain pct_convert_def first_valid_def split: list.splits)

text \<open>
  C22: when a stripped percent string does not parse, \<open>astype(np.float64)\<close> raises \<open>ValueError\<close> and the classifier propagates it.
\<close>

theorem percent_parse_error:
  assumes "\<not> looks_like_datetime s" and "\<not> less_sqrt (nunique s) (count s)"
    and "str_accessor_ok s" and "list_all has_pct s"
    and "parse_series (to_float P) (map strip_cell s) = None"
  shows "dtype_detection P cd st dt2cat c (ObjCol s) = Inl ValueError"
  using assms by (simp add: str_detection_plain pct_convert_def)

text \<open>
  C23: an object column holding only Python integers is not collapsed to a category when it has many distinct values, and then raises \<open>AttributeError\<close> at the \<open>.str\<close> accessor of line 172.
\<close>

theorem int_object_column_error:
  assumes "dropna s \<noteq> []" and "list_all is_number (dropna s)"
    and "\<not> less_sqrt (nunique s) (count s)"
  shows "dtype_detection P cd st dt2cat c (ObjCol s) = Inl AttributeError"
proof -
  have "list_ex is_number (dropna s)" using assms(1,2) by (cases "dropna s") auto
  then have "\<not> looks_like_datetime s" by (simp add: looks_like_datetime_def)
  moreover have "\<not> str_accessor_ok s"
    using assms(1,2) by (auto simp: str_accessor_ok_def list_all_iff list_ex_iff)
  ultimately show ?thesis using assms(3) by (simp add: str_detection_plain pct_convert_def)
qed

text \<open>
  A string column not taken for a datetime, not collapsed, without a percent sign in every string and with all texts of one length is reported as \<open>text_st\<close> when the first value shares a character with every non-empty string, and as \<open>text\<close> otherwise; the column is left unchanged.
\<close>

theorem structured_text_vtype:
  assumes "\<not> looks_like_datetime s" and "\<not> less_sqrt (nunique s) (count s)"
    and "str_accessor_ok s" and "\<not> list_all has_pct s"
    and "st" and "std_zero (map real (str_lens s))" and "first_valid s = Inr (PStr f)"
  shows "dtype_detection P cd st dt2cat c (ObjCol s) =
           Inr (Some (mk_result c (if common_chars f s = [] then Text else Text_st) False []), ObjCol s)"
  using assms by (simp add: str_detection_plain pct_convert_def)

lemma common_chars_fold:
  "set (fold (\<lambda>c k. case c of
                   Some (PStr x) \<Rightarrow> if x \<noteq> [] then filter (\<lambda>ch. ch \<in> set x) k else k
                 | _ \<Rightarrow> k) s k) =
   set k \<inter> {ch. list_all (\<lambda>c. case c of Some (PStr x) \<Rightarrow> x = [] \<or> ch \<in> set x | _ \<Rightarrow> True) s}"
proof (induction s arbitrary: k)
  case Nil
  then show ?case by simp
next
  case (Cons c s)
  then show ?case by (auto split: option.splits pyobj.splits)
qed

text \<open>
  The list computed by the character-intersection loop of lines 188--191 holds exactly the characters of the first value that occur in every non-empty string cell.
\<close>

theorem common_chars_spec:
  "set (common_chars f s) =
   set f \<inter> {ch. list_all (\<lambda>c. case c of Some (PStr x) \<Rightarrow> x = [] \<or> ch \<in> set x | _ \<Rightarrow> True) s}"
  by (simp add: common_chars_def common_chars_fold)

text \<open>
  C24: a column that looks like fixed-width timestamps and parses as such becomes a datetime column and is reported as \<open>datetime\<close>, unless \<open>datetime_to_category\<close> is on and it has few distinct timestamps.
\<close>

theorem datetime_column_parsed:
  assumes "looks_like_datetime s" and "parse_series (dt_cell P) s = Some t"
    and "\<not> (dt2cat \<and> less_sqrt (nunique t) (count s))"
  shows "dtype_detection P cd st dt2cat c (ObjCol s) = Inr (Some (mk_result c Datetime False []), DtCol t)"
  using assms by (auto simp: str_detection_def try_to_datetime_def factor_collapse_def Let_def)

section \<open>Exceptions\<close>

lemma std_zero_length: "std_zero xs \<Longrightarrow> 2 \<le> length xs"
  by (simp add: std_zero_code)

lemma str_lens_dropna: "str_lens s \<noteq> [] \<Longrightarrow> dropna s \<noteq> []"
  by (auto simp: str_lens_def)

lemma strip_cells_nonempty:
  "list_ex (\<lambda>v. \<not> is_number v) (dropna s) \<Longrightarrow> dropna (map strip_cell s) \<noteq> []"
proof (induction s)
  case Nil
  then show ?case by simp
next
  case (Cons c s)
  then show ?case by (cases c rule: strip_cell.cases) auto
qed

lemma pct_convert_cases:
  assumes "pct_convert P s = Inr col'"
  shows "col' = ObjCol s \<or>
         (\<exists>t. col' = NumCol (map (map_option (\<lambda>v. v / 100)) t) \<and> str_accessor_ok s \<and>
              parse_series (to_float P) (map strip_cell s) = Some t)"
  using assms by (auto simp: pct_convert_def split: if_splits option.splits)

lemma pct_convert_errors: "pct_convert P s = Inl e \<Longrightarrow> e = ValueError \<or> e = AttributeError"
  by (auto simp: pct_convert_def split: if_splits option.splits)

lemma pct_convert_keeps_values:
  assumes "pct_convert P s = Inr (NumCol s')" and "dropna s \<noteq> []"
  shows "dropna s' \<noteq> []"
proof -
  obtain t where s': "s' = map (map_option (\<lambda>v. v / 100)) t" and ok: "str_accessor_ok s"
    and p: "parse_series (to_float P) (map strip_cell s) = Some t"
    using pct_convert_cases [OF assms(1)] by auto
  have "list_ex (\<lambda>v. \<not> is_number v) (dropna s)"
    using ok assms(2) by (simp add: str_accessor_ok_def)
  then have "dropna (map strip_cell s) \<noteq> []" by (rule strip_cells_nonempty)
  then have "dropna t \<noteq> []" using parse_series_dropna [OF p] by (metis map_is_Nil_conv)
  then show ?thesis by (simp add: s')
qed

lemma structured_vtype_error:
  "structured_vtype col = Inl e \<Longrightarrow>
   (\<exists>s. col = ObjCol s \<and> dropna s = []) \<or> (\<exists>s. col = NumCol s \<and> dropna s = [])"
  by (cases col) (auto simp: first_valid_def split: list.splits sum.splits pyobj.splits)

lemma str_result_error:
  "str_result st lens c col = Inl e \<Longrightarrow>
   std_zero (map real lens) \<and> structured_vtype col = Inl e"
  by (cases "(st, lens, c, col)" rule: str_result.cases) (auto split: if_splits sum.splits column.splits)

text \<open>
  C25: the only exceptions the classifier lets escape are \<open>ValueError\<close> (a percent string that does not parse) and \<open>AttributeError\<close> (the \<open>.str\<close> accessor on an object column without strings); in particular \<open>dropna().iloc[0]\<close> of line 185 never raises.
\<close>

theorem dtype_detection_errors:
  assumes "dtype_detection P cd st dt2cat c col = Inl e"
  shows "e = ValueError \<or> e = AttributeError"
proof -
  obtain s where col: "col = ObjCol s" and str: "str_detection P st dt2cat c s = Inl e"
    using assms by (cases col) (auto split: prod.splits sum.splits)
  define col1 where "col1 = (if looks_like_datetime s then try_to_datetime P s else ObjCol s)"
  define col2 where "col2 = factor_collapse dt2cat (count s) col1"
  show ?thesis
  proof (cases "percent_step P col2")
    case (Inl e')
    then have "e' = e" using str by (simp add: str_detection_def Let_def col1_def col2_def)
    moreover have "col2 = ObjCol s \<or> \<not> (\<exists>s'. col2 = ObjCol s')"
      using try_to_datetime_cases [of P s]
      by (auto simp: col2_def col1_def factor_collapse_def to_category_def)
    ultimately show ?thesis using Inl pct_convert_errors [of P s e]
      by (cases col2) auto
  next
    case (Inr col3)
    then have r: "str_result st (str_lens s) c col3 = Inl e"
      using str by (simp add: str_detection_def Let_def col1_def col2_def split: sum.splits)
    then have z: "std_zero (map real (str_lens s))" and sv: "structured_vtype col3 = Inl e"
      using str_result_error by blast+
    have "str_lens s \<noteq> []" using std_zero_length [OF z] by auto
    then have ne: "dropna s \<noteq> []" by (rule str_lens_dropna)
    have c12: "col2 = ObjCol s \<or> (\<not> (\<exists>s'. col2 = ObjCol s') \<and> \<not> (\<exists>s'. col2 = NumCol s'))"
      using try_to_datetime_cases [of P s]
      by (auto simp: col2_def col1_def factor_collapse_def to_category_def)
    from structured_vtype_error [OF sv] show ?thesis
    proof
      assume "\<exists>s'. col3 = ObjCol s' \<and> dropna s' = []"
      then obtain s' where "col3 = ObjCol s'" "dropna s' = []" by blast
      with Inr c12 ne show ?thesis
        by (cases col2) (auto simp: pct_convert_def split: if_splits option.splits)
    next
      assume "\<exists>s'. col3 = NumCol s' \<and> dropna s' = []"
      then obtain s' where c3: "col3 = NumCol s'" and e0: "dropna s' = []" by blast
      with Inr c12 have "pct_convert P s = Inr (NumCol s')" by (cases col2) auto
      from pct_convert_keeps_values [OF this ne] e0 show ?thesis by simp
    qed
  qed
qed

section \<open>Re-classification\<close>

text \<open>
  C26: a column the classifier turned into a category is dropped when classified again:
  its categorical dtype is neither numeric, string nor datetime for pandas, so the second
  call prints \<open>unknown dtype!\<close> and returns \<open>None\<close>.
\<close>

theorem category_reclassify_dropped:
  assumes run: "dtype_detection P cd st dt2cat c col = Inr (Some r, col')"
    and cat: "vtype r = Category"
  shows "dtype_detection P' cd' st' dt2cat' c col' = Inr (None, col')"
proof -
  have "wf_result c r col'"
  proof (cases col)
    case (NumCol s)
    with run have "num_detection cd c s = (r, col')" by (simp only: dtype_detection_NumCol)
    then show ?thesis by (rule num_detection_wf)
  next
    case (ObjCol s)
    with run have "str_detection P st dt2cat c s = Inr (r, col')"
      by (auto split: sum.splits prod.splits)
    then show ?thesis by (rule str_detection_wf)
  next
    case (DtCol s)
    with run cat show ?thesis by (auto simp: mk_result_def)
  qed (use run in auto)
  with cat obtain s where "col' = CatCol (categories r) False s"
    by (cases col') (auto simp: wf_result_def)
  then show ?thesis by simp
qed

section \<open>Witnesses\<close>

lemma category_reclassify_dropped_witness:
  "dtype_detection std_parsers True True True ''k'' (NumCol [Some 3, Some 3, Some 3, Some 4, Some 4]) =
     Inr (Some (mk_result ''k'' Category False [SNum 3, SNum 4]),
          CatCol [SNum 3, SNum 4] False [Some (SNum 3), Some (SNum 3), Some (SNum 3), Some (SNum 4), Some (SNum 4)]) \<and>
   dtype_detection std_parsers True True True ''k''
     (CatCol [SNum 3, SNum 4] False [Some (SNum 3), Some (SNum 3), Some (SNum 3), Some (SNum 4), Some (SNum 4)]) =
     Inr (None, CatCol [SNum 3, SNum 4] False [Some (SNum 3), Some (SNum 3), Some (SNum 3), Some (SNum 4), Some (SNum 4)])"
proof -
  have run: "dtype_detection std_parsers True True True ''k'' (NumCol [Some 3, Some 3, Some 3, Some 4, Some 4]) =
     Inr (Some (mk_result ''k'' Category False [SNum 3, SNum 4]),
          CatCol [SNum 3, SNum 4] False [Some (SNum 3), Some (SNum 3), Some (SNum 3), Some (SNum 4), Some (SNum 4)])"
    by code_simp
  have "vtype (mk_result ''k'' Category False [SNum 3, SNum 4]) = Category"
    by (simp add: mk_result_def)
  from category_reclassify_dropped [OF run this, of std_parsers True True True] run show ?thesis
    by simp
qed

lemma percent_column_number_witness:
  "dtype_detection std_parsers True True True ''rate''
     (ObjCol [Some (PStr ''21.12%''), Some (PStr ''5%''), Some (PStr ''100%'')]) =
   Inr (Some (mk_result ''rate'' Number False []), NumCol [Some 0.2112, Some 0.05, Some 1])"
proof -
  have "dtype_detection std_parsers True True True ''rate''
     (ObjCol [Some (PStr ''21.12%''), Some (PStr ''5%''), Some (PStr ''100%'')]) =
   Inr (Some (mk_result ''rate'' Number False []),
        NumCol (map (map_option (\<lambda>v. v / 100)) [Some 21.12, Some 5, Some 100]))"
    by (rule percent_column_number) code_simp+
  then show ?thesis by simp
qed

lemma percent_column_equal_width_text_witness:
  "dtype_detection std_parsers True True True ''rate''
     (ObjCol [Some (PStr ''10%''), Some (PStr ''20%''), Some (PStr ''30%'')]) =
   Inr (Some (mk_result ''rate'' Text False []), NumCol [Some 0.1, Some 0.2, Some 0.3])"
proof -
  have "dtype_detection std_parsers True True True ''rate''
     (ObjCol [Some (PStr ''10%''), Some (PStr ''20%''), Some (PStr ''30%'')]) =
   Inr (Some (mk_result ''rate'' Text False []),
        NumCol (map (map_option (\<lambda>v. v / 100)) [Some 10, Some 20, Some 30]))"
    by (rule percent_column_equal_width_text) code_simp+
  then show ?thesis by simp
qed

lemma percent_parse_error_witness:
  "dtype_detection std_parsers True True True ''rate''
     (ObjCol [Some (PStr ''5%''), Some (PStr ''n/a%''), Some (PStr ''7%'')]) = Inl ValueError"
  by (rule percent_parse_error) code_simp+

lemma int_object_column_error_witness:
  "dtype_detection std_parsers True True True ''id'' (ObjCol [Some (PInt 1), Some (PInt 2)]) =
   Inl AttributeError"
  by (rule int_object_column_error) code_simp+

lemma structured_text_vtype_witness:
  "dtype_detection std_parsers True True True ''id''
     (ObjCol [Some (PStr ''ab-1''), Some (PStr ''cd-2''), Some (PStr ''ef-3'')]) =
   Inr (Some (mk_result ''id'' Text_st False []),
        ObjCol [Some (PStr ''ab-1''), Some (PStr ''cd-2''), Some (PStr ''ef-3'')]) \<and>
   dtype_detection std_parsers True True True ''id''
     (ObjCol [Some (PStr ''ab''), Some (PStr ''cd''), Some (PStr ''ef'')]) =
   Inr (Some (mk_result ''id'' Text False []),
        ObjCol [Some (PStr ''ab''), Some (PStr ''cd''), Some (PStr ''ef'')])"
proof -
  have a: "dtype_detection std_parsers True True True ''id''
     (ObjCol [Some (PStr ''ab-1''), Some (PStr ''cd-2''), Some (PStr ''ef-3'')]) =
   Inr (Some (mk_result ''id''
        (if common_chars ''ab-1'' [Some (PStr ''ab-1''), Some (PStr ''cd-2''), Some (PStr ''ef-3'')] = []
         then Text else Text_st) False []),
        ObjCol [Some (PStr ''ab-1''), Some (PStr ''cd-2''), Some (PStr ''ef-3'')])"
    by (rule structured_text_vtype) code_simp+
  have b: "dtype_detection std_parsers True True True ''id''
     (ObjCol [Some (PStr ''ab''), Some (PStr ''cd''), Some (PStr ''ef'')]) =
   Inr (Some (mk_result ''id''
        (if common_chars ''ab'' [Some (PStr ''ab''), Some (PStr ''cd''), Some (PStr ''ef'')] = []
         then Text else Text_st) False []),
        ObjCol [Some (PStr ''ab''), Some (PStr ''cd''), Some (PStr ''ef'')])"
    by (rule structured_text_vtype) code_simp+
  have ca: "common_chars ''ab-1'' [Some (PStr ''ab-1''), Some (PStr ''cd-2''), Some (PStr ''ef-3'')] = ''-''"
    by code_simp
  have cb: "common_chars ''ab'' [Some (PStr ''ab''), Some (PStr ''cd''), Some (PStr ''ef'')] = []"
    by code_simp
  show ?thesis using a b ca cb by simp
qed

lemma datetime_column_parsed_witness:
  "dtype_detection std_parsers True True True ''day''
     (ObjCol [Some (PStr ''2017-11-23''), Some (PStr ''2017-11-24''), None]) =
   Inr (Some (mk_result ''day'' Datetime False []), DtCol [Some 20171123, Some 20171124, None])"
proof -
  have p: "parse_series (dt_cell std_parsers)
      [Some (PStr ''2017-11-23''), Some (PStr ''2017-11-24''), None] =
    Some [Some 20171123, Some 20171124, None]"
    by (simp add: std_parsers_def parse_iso_date_def digit_simps)
  show ?thesis by (rule datetime_column_parsed [OF _ p]) code_simp+
qed

lemma dtype_detection_errors_witness:
  "dtype_detection std_parsers True True True ''v''
     (ObjCol [Some (PStr ''1%''), Some (PStr ''x%''), Some (PStr ''15%'')]) = Inl ValueError \<and>
   (ValueError = ValueError \<or> ValueError = AttributeError)"
proof -
  have run: "dtype_detection std_parsers True True True ''v''
     (ObjCol [Some (PStr ''1%''), Some (PStr ''x%''), Some (PStr ''15%'')]) = Inl ValueError"
    by code_simp
  show ?thesis using run dtype_detection_errors [OF run] by simp
qed

lemma int_fix_witness_integral:
  "int_fix [Some 2, None, Some (-3)] = [Some 2, None, Some (-3)]"
  by code_simp

end
