(* ===== verification/Scanner.thy ===== *)
theory Scanner
  imports Column "HOL-Library.AList"
begin

text \<open>
  The Table Scanner and Grouper of \<open>src/reportgen/analysis.py\<close>: \<open>type_of_var\<close>
  (lines 215--246) and \<open>var_detection\<close> (lines 250--313). A data frame is an
  association list from column names to columns, in column order. Both functions run the
  classifier of theory \<open>Column\<close> on every column and write its rewritten column back.
  \<open>var_detection\<close> then scans the results for runs of numeric columns named
  \<open>prefix + digits\<close> and merges them into \<open>group_number\<close> entries. Its scan loop does
  not always advance, so it is a \<open>partial_function (option)\<close>: \<open>None\<close> is the loop
  that never returns.
\<close>

type_synonym table = "(string \<times> column) list"

section \<open>Classifying a column of a table\<close>

text \<open>
  \<open>dtype_detection(c, data, ...)\<close>: look the column up (\<open>KeyError\<close> if absent),
  classify it, and store the rewritten column under the same name.
\<close>

definition detect_in_table ::
  "parsers \<Rightarrow> bool \<Rightarrow> bool \<Rightarrow> bool \<Rightarrow> string \<Rightarrow> table \<Rightarrow> pyerr + result option \<times> table"
where
  "detect_in_table P cd st dt2cat c tbl =
     (case map_of tbl c of
        None \<Rightarrow> Inl KeyError
      | Some col \<Rightarrow>
          (case dtype_detection P cd st dt2cat c col of
             Inl e \<Rightarrow> Inl e
           | Inr (r, col') \<Rightarrow> Inr (r, AList.update c col' tbl)))"

text \<open>
  Lines 263--266: every column in order, with the defaults of \<open>dtype_detection\<close>
  (category and structured-text detection on); the results that are not \<open>None\<close> are
  kept. An exception aborts the loop, as in Python.
\<close>

fun classify_columns :: "parsers \<Rightarrow> string list \<Rightarrow> table \<Rightarrow> pyerr + result list \<times> table" where
  "classify_columns P [] tbl = Inr ([], tbl)"
| "classify_columns P (c # cs) tbl =
     (case detect_in_table P True True True c tbl of
        Inl e \<Rightarrow> Inl e
      | Inr (r, tbl1) \<Rightarrow>
          (case classify_columns P cs tbl1 of
             Inl e \<Rightarrow> Inl e
           | Inr (rs, tbl2) \<Rightarrow> Inr (case r of None \<Rightarrow> rs | Some x \<Rightarrow> x # rs, tbl2)))"

section \<open>\<open>type_of_var\<close> (lines 215--246)\<close>

text \<open>
  The vtype of every classified column, keyed by name, with \<open>datetime_to_category\<close>
  off. With \<open>inplace\<close> the loop runs on \<open>data\<close>; without it on
  \<open>data1 = data.loc[:, :]\<close> (line 236), which in pandas 1.x is the caller's frame
  itself (an indexer of null slices only returns the object it indexes). Either way the
  classifier's rewrites land in the caller's table, so \<open>inplace\<close> changes nothing.
\<close>

fun type_of_var_loop ::
  "parsers \<Rightarrow> string list \<Rightarrow> table \<Rightarrow> (string \<rightharpoonup> vtype) \<Rightarrow> pyerr + (string \<rightharpoonup> vtype) \<times> table"
where
  "type_of_var_loop P [] tbl m = Inr (m, tbl)"
| "type_of_var_loop P (c # cs) tbl m =
     (case detect_in_table P True True False c tbl of
        Inl e \<Rightarrow> Inl e
      | Inr (None, tbl1) \<Rightarrow> type_of_var_loop P cs tbl1 m
      | Inr (Some r, tbl1) \<Rightarrow> type_of_var_loop P cs tbl1 (m(c \<mapsto> vtype r)))"

definition type_of_var :: "parsers \<Rightarrow> bool \<Rightarrow> table \<Rightarrow> pyerr + (string \<rightharpoonup> vtype) \<times> table" where
  "type_of_var P inplace tbl =
     (case type_of_var_loop P (map fst tbl) tbl Map.empty of
        Inl e \<Rightarrow> Inl e
      | Inr (m, tbl') \<Rightarrow> Inr (m, tbl'))"

section \<open>Name patterns (lines 271, 282--285)\<close>

text \<open>
  \<open>re.findall(r'(.*?)(\d+)', name)[0]\<close>: the first match. The lazy \<open>.*?\<close> stops at
  the first digit and cannot cross a newline, so the match starts after the last newline
  before the first digit; \<open>\d+\<close> takes the whole run of digits. A name with no digit
  has no match. (The test \<open>len(w[0]) < 2\<close> of line 283 never holds: a match of two
  groups is a pair.)
\<close>

definition name_match :: "string \<Rightarrow> (string \<times> string) option" where
  "name_match s =
     (let pre = takeWhile (\<lambda>ch. \<not> is_digit ch) s;
          rest = dropWhile (\<lambda>ch. \<not> is_digit ch) s
      in if rest = [] then None
         else Some (rev (takeWhile (\<lambda>ch. ch \<noteq> CHR ''\<newline>'') (rev pre)),
                    takeWhile is_digit rest))"

text \<open>
  Lines 278--285: from position \<open>i\<close> on, the prefix and digits of each result while it
  is a number and its name matches.
\<close>

fun collect_run :: "result list \<Rightarrow> (string \<times> string) list" where
  "collect_run [] = []"
| "collect_run (v # vs) =
     (if vtype v \<noteq> Number then []
      else case name_match (name v) of
             None \<Rightarrow> []
           | Some m \<Rightarrow> m # collect_run vs)"

text \<open>\<open>np.diff\<close> of a list of integers.\<close>

fun diffs :: "int list \<Rightarrow> int list" where
  "diffs (x # y # zs) = (y - x) # diffs (y # zs)"
| "diffs xs = []"

text \<open>Line 289: all prefixes equal. Line 290: the suffix differences sum to the run length less one.\<close>

definition same_prefix :: "(string \<times> string) list \<Rightarrow> bool" where
  "same_prefix run \<longleftrightarrow> length (remdups (map fst run)) = 1"

definition suffix_span_ok :: "(string \<times> string) list \<Rightarrow> bool" where
  "suffix_span_ok run \<longleftrightarrow>
     sum_list (diffs (map (\<lambda>p. int (digits_nat (snd p))) run)) = int (length run) - 1"

section \<open>The grouping scan (lines 269--293)\<close>

text \<open>
  The \<open>while\<close> loop over \<open>i\<close> with the list of confirmed groups \<open>var_group\<close>. A run
  of two or more that fails the prefix or the suffix test leaves \<open>i\<close> where it was: the
  loop then runs forever, which the least fixed point makes \<open>None\<close>.
\<close>

partial_function (option) group_scan ::
  "result list \<Rightarrow> nat \<Rightarrow> nat list list \<Rightarrow> nat list list option"
where
  "group_scan L i acc =
     (if Suc i < length L then
        (if vtype (L ! i) \<noteq> Number \<or> vtype (L ! Suc i) \<noteq> Number
         then group_scan L (Suc i) acc
         else
           (let run = collect_run (drop i L) in
            if length run < 2 then group_scan L (Suc i) acc
            else if same_prefix run \<and> suffix_span_ok run
            then group_scan L (i + length run) (acc @ [[i..<i + length run]])
            else group_scan L i acc))
      else Some acc)"

section \<open>Emitting the merged list (lines 294--313)\<close>

definition vl_of :: "result \<Rightarrow> string list" where
  "vl_of r = (case vlist r of None \<Rightarrow> [] | Some l \<Rightarrow> l)"

text \<open>Lines 298--301: the \<open>group_number\<close> entry of a group of indices.\<close>

definition group_entry :: "result list \<Rightarrow> nat list \<Rightarrow> result" where
  "group_entry L vi =
     (let vl = map (\<lambda>j. name (L ! j)) vi
      in \<lparr>name = name (L ! hd vi) @ ''-->'' @ name (L ! last vi), vtype = Group_number,
          ordered = True, categories = map (\<lambda>x. SObj (PStr x)) vl, vlist = Some vl\<rparr>)"

text \<open>Line 302: \<open>var_group_new[vi[0]] = tmp\<close> for each group in turn.\<close>

definition group_table :: "result list \<Rightarrow> nat list list \<Rightarrow> nat \<rightharpoonup> result" where
  "group_table L gs = fold (\<lambda>vi m. m(hd vi \<mapsto> group_entry L vi)) gs Map.empty"

text \<open>
  Lines 305--312: a column outside every group is emitted with \<open>vlist = [name]\<close>; a
  grouped column whose name was not yet emitted stands for its group
  (\<open>var_group_new[i]\<close>, \<open>KeyError\<close> if no group starts there); the rest are skipped.
\<close>

fun emit_loop ::
  "nat list \<Rightarrow> (nat \<rightharpoonup> result) \<Rightarrow> (nat \<times> result) list \<Rightarrow> result list \<Rightarrow> string list
   \<Rightarrow> pyerr + result list"
where
  "emit_loop gtot gnew [] new have = Inr new"
| "emit_loop gtot gnew ((i, v) # ivs) new have =
     (if i \<notin> set gtot
      then emit_loop gtot gnew ivs (new @ [v\<lparr>vlist := Some [name v]\<rparr>]) (have @ [name v])
      else if name v \<notin> set have
      then (case gnew i of
              None \<Rightarrow> Inl KeyError
            | Some g \<Rightarrow> emit_loop gtot gnew ivs (new @ [g]) (have @ vl_of g))
      else emit_loop gtot gnew ivs new have)"

definition emit_groups :: "result list \<Rightarrow> nat list list \<Rightarrow> pyerr + result list" where
  "emit_groups L gs = emit_loop (concat gs) (group_table L gs) (enumerate 0 L) [] []"

section \<open>\<open>var_detection\<close> (lines 250--313)\<close>

text \<open>
  \<open>None\<close>: the call does not return. \<open>Some (Inl e)\<close>: it raises \<open>e\<close>.
  \<open>Some (Inr (vars, data))\<close>: it returns the variable list and the rewritten table.
\<close>

definition var_detection :: "parsers \<Rightarrow> bool \<Rightarrow> table \<Rightarrow> (pyerr + result list \<times> table) option" where
  "var_detection P combine tbl =
     (case classify_columns P (map fst tbl) tbl of
        Inl e \<Rightarrow> Some (Inl e)
      | Inr (L, tbl') \<Rightarrow>
          if \<not> combine then Some (Inr (L, tbl'))
          else (case group_scan L 0 [] of
                  None \<Rightarrow> None
                | Some gs \<Rightarrow>
                    Some (case emit_groups L gs of
                            Inl e \<Rightarrow> Inl e
                          | Inr vars \<Rightarrow> Inr (vars, tbl'))))"

section \<open>Reference semantics\<close>

text \<open>
  A total reading of the grouping loop: the same steps, with \<open>None\<close> where the Python
  loop would stay at the same \<open>i\<close> forever. Each other step increases \<open>i\<close>, so the
  recursion terminates on the measure \<open>length L - i\<close>.
\<close>

function scan_ref :: "result list \<Rightarrow> nat \<Rightarrow> nat list list \<Rightarrow> nat list list option" where
  "scan_ref L i acc =
     (if Suc i < length L then
        (if vtype (L ! i) \<noteq> Number \<or> vtype (L ! Suc i) \<noteq> Number
         then scan_ref L (Suc i) acc
         else
           (let run = collect_run (drop i L) in
            if length run < 2 then scan_ref L (Suc i) acc
            else if same_prefix run \<and> suffix_span_ok run
            then scan_ref L (i + length run) (acc @ [[i..<i + length run]])
            else None))
      else Some acc)"
  by pat_completeness auto
termination
  by (relation "measure (\<lambda>(L, i, acc). length L - i)") (auto simp: Let_def)

text \<open>
  The groups a scan may confirm from position \<open>i\<close> on, in a list of \<open>n\<close> results:
  intervals of at least two indices, each starting at or after the end of the one before.
\<close>

fun ok_groups :: "nat \<Rightarrow> nat \<Rightarrow> nat list list \<Rightarrow> bool" where
  "ok_groups i n [] = True"
| "ok_groups i n (g # gs) =
     (g = [hd g..<hd g + length g] \<and> i \<le> hd g \<and> 2 \<le> length g \<and> hd g + length g \<le> n \<and>
      ok_groups (hd g + length g) n gs)"

text \<open>The entry of a column outside every group (line 307).\<close>

definition single_entry :: "result \<Rightarrow> result" where
  "single_entry v = v\<lparr>vlist := Some [name v]\<rparr>"

text \<open>
  What the emission is meant to produce: the results in order, each group replaced by its
  \<open>group_number\<close> entry at the position of its first member.
\<close>

fun spec_emit :: "result list \<Rightarrow> nat \<Rightarrow> nat list list \<Rightarrow> result list" where
  "spec_emit L i [] = map single_entry (drop i L)"
| "spec_emit L i (g # gs) =
     map single_entry (take (hd g - i) (drop i L)) @
     group_entry L g # spec_emit L (hd g + length g) gs"

text \<open>The dtypes the classifier recognises (it returns a result for them).\<close>

fun recognised :: "column \<Rightarrow> bool" where
  "recognised (NumCol s) = True"
| "recognised (ObjCol s) = True"
| "recognised (DtCol s) = True"
| "recognised c = False"

section \<open>Example tables\<close>

text \<open>Small tables of three-value numeric columns, on which the scanner is run.\<close>

definition num3 :: column where
  "num3 = NumCol [Some 1, Some 2, Some 3]"

definition tbl_q1 :: table where
  "tbl_q1 = [(''Q1_a'', num3), (''Q1_b'', num3), (''Q1_c'', num3)]"

definition tbl_items :: table where
  "tbl_items = [(''Item1'', num3), (''Item2'', num3), (''Item3'', num3)]"

definition tbl_skip :: table where
  "tbl_skip = [(''X1'', num3), (''X5'', num3), (''X3'', num3)]"

definition num_results :: "string list \<Rightarrow> result list" where
  "num_results cs = map (\<lambda>c. mk_result c Number False []) cs"

definition items_group :: result where
  "items_group = \<lparr>name = ''Item1-->Item3'', vtype = Group_number, ordered = True,
     categories = [SObj (PStr ''Item1''), SObj (PStr ''Item2''), SObj (PStr ''Item3'')],
     vlist = Some [''Item1'', ''Item2'', ''Item3'']\<rparr>"

definition skip_group :: result where
  "skip_group = \<lparr>name = ''X1-->X3'', vtype = Group_number, ordered = True,
     categories = [SObj (PStr ''X1''), SObj (PStr ''X5''), SObj (PStr ''X3'')],
     vlist = Some [''X1'', ''X5'', ''X3'']\<rparr>"

definition tbl_mixed :: table where
  "tbl_mixed = [(''id'', ObjCol [Some (PStr ''alpha''), Some (PStr ''be''), Some (PStr ''c'')]),
     (''Item1'', num3), (''flag'', OtherCol), (''Item2'', num3)]"

definition mixed_vars :: "result list" where
  "mixed_vars = [\<lparr>name = ''id'', vtype = Text, ordered = False, categories = [], vlist = Some [''id'']\<rparr>,
     \<lparr>name = ''Item1-->Item2'', vtype = Group_number, ordered = True,
      categories = [SObj (PStr ''Item1''), SObj (PStr ''Item2'')], vlist = Some [''Item1'', ''Item2'']\<rparr>]"

section \<open>The grouping loop against its reference\<close>

declare scan_ref.simps [simp del]

lemma scan_ref_group_scan:
  "scan_ref L i acc = Some r \<Longrightarrow> group_scan L i acc = Some r"
proof (induction L i acc rule: scan_ref.induct)
  case (1 L i acc)
  show ?case
  proof (cases "Suc i < length L")
    case False
    with "1.prems" show ?thesis by (simp add: scan_ref.simps group_scan.simps)
  next
    case True
    note lt = True
    show ?thesis
    proof (cases "vtype (L ! i) \<noteq> Number \<or> vtype (L ! Suc i) \<noteq> Number")
      case True
      with lt "1.prems" "1.IH"(1) show ?thesis
        by (simp add: scan_ref.simps [of L i acc] group_scan.simps [of L i acc])
    next
      case False
      define run where "run = collect_run (drop i L)"
      show ?thesis
      proof (cases "length run < 2")
        case True
        with lt False "1.prems" "1.IH"(2) show ?thesis
          by (simp add: scan_ref.simps [of L i acc] group_scan.simps [of L i acc] run_def Let_def)
      next
        case short: False
        show ?thesis
        proof (cases "same_prefix run \<and> suffix_span_ok run")
          case True
          with lt False short "1.prems" "1.IH"(3) show ?thesis
            by (simp add: scan_ref.simps [of L i acc] group_scan.simps [of L i acc] run_def Let_def)
        next
          case bad: False
          with lt False short "1.prems" show ?thesis
            by (auto simp add: scan_ref.simps [of L i acc] run_def Let_def split: if_splits)
        qed
      qed
    qed
  qed
qed

lemma group_scan_scan_ref:
  assumes "group_scan L i acc = Some r"
  shows "scan_ref L i acc = Some r"
proof (rule group_scan.raw_induct [where P = "\<lambda>L i acc r. scan_ref L i acc = Some r", OF _ assms])
  fix f L i acc r
  assume IH: "\<And>L i acc r. f L i acc = Some r \<Longrightarrow> scan_ref L i acc = Some r"
    and eq: "(if Suc i < length L then
        (if vtype (L ! i) \<noteq> Number \<or> vtype (L ! Suc i) \<noteq> Number
         then f L (Suc i) acc
         else
           (let run = collect_run (drop i L) in
            if length run < 2 then f L (Suc i) acc
            else if same_prefix run \<and> suffix_span_ok run
            then f L (i + length run) (acc @ [[i..<i + length run]])
            else f L i acc))
      else Some acc) = Some r"
  show "scan_ref L i acc = Some r"
  proof (cases "Suc i < length L")
    case False
    with eq show ?thesis by (simp add: scan_ref.simps)
  next
    case lt: True
    show ?thesis
    proof (cases "vtype (L ! i) \<noteq> Number \<or> vtype (L ! Suc i) \<noteq> Number")
      case True
      with lt eq IH show ?thesis by (simp add: scan_ref.simps [of L i acc])
    next
      case False
      define run where "run = collect_run (drop i L)"
      show ?thesis
      proof (cases "length run < 2")
        case True
        with lt False eq IH show ?thesis
          by (simp add: scan_ref.simps [of L i acc] run_def Let_def)
      next
        case short: False
        show ?thesis
        proof (cases "same_prefix run \<and> suffix_span_ok run")
          case True
          with lt False short eq IH show ?thesis
            by (simp add: scan_ref.simps [of L i acc] run_def Let_def)
        next
          case bad: False
          with lt False short eq have "f L i acc = Some r"
            by (auto simp add: run_def Let_def split: if_splits)
          then have "scan_ref L i acc = Some r" by (rule IH)
          then show ?thesis .
        qed
      qed
    qed
  qed
qed

lemma group_scan_None: "scan_ref L i acc = None \<Longrightarrow> group_scan L i acc = None"
  using group_scan_scan_ref by (cases "group_scan L i acc") auto

section \<open>The groups a scan confirms\<close>

lemma length_collect_run: "length (collect_run xs) \<le> length xs"
  by (induction xs rule: collect_run.induct) (auto split: option.splits)

lemma ok_groups_Suc: "ok_groups (Suc i) n gs \<Longrightarrow> ok_groups i n gs"
  by (cases gs) auto

lemma scan_ref_ok_groups:
  "scan_ref L i acc = Some r \<Longrightarrow> \<exists>gs. r = acc @ gs \<and> ok_groups i (length L) gs"
proof (induction L i acc arbitrary: r rule: scan_ref.induct)
  case (1 L i acc)
  show ?case
  proof (cases "Suc i < length L")
    case False
    with "1.prems" show ?thesis by (simp add: scan_ref.simps)
  next
    case lt: True
    show ?thesis
    proof (cases "vtype (L ! i) \<noteq> Number \<or> vtype (L ! Suc i) \<noteq> Number")
      case True
      with lt "1.prems" have "scan_ref L (Suc i) acc = Some r"
        by (simp add: scan_ref.simps [of L i acc])
      with "1.IH"(1) lt True show ?thesis by (blast dest: ok_groups_Suc)
    next
      case nn: False
      define run where "run = collect_run (drop i L)"
      show ?thesis
      proof (cases "length run < 2")
        case True
        with lt nn "1.prems" have "scan_ref L (Suc i) acc = Some r"
          by (simp add: scan_ref.simps [of L i acc] run_def Let_def)
        with "1.IH"(2) [OF lt nn run_def True] show ?thesis by (blast dest: ok_groups_Suc)
      next
        case long: False
        with lt nn "1.prems" have good: "same_prefix run \<and> suffix_span_ok run"
          and rec: "scan_ref L (i + length run) (acc @ [[i..<i + length run]]) = Some r"
          by (auto simp add: scan_ref.simps [of L i acc] run_def Let_def split: if_splits)
        from "1.IH"(3) [OF lt nn run_def long good rec] obtain gs where
          r: "r = (acc @ [[i..<i + length run]]) @ gs" and ok: "ok_groups (i + length run) (length L) gs"
          by blast
        have "length run \<le> length L - i"
          using length_collect_run [of "drop i L"] by (simp add: run_def)
        have hd_run: "hd [i..<i + length run] = i" proof -
          have "i < i + length run" using long by (cases run) auto
          then show ?thesis by (simp add: upt_conv_Cons)
        qed
        with long lt ok \<open>length run \<le> length L - i\<close>
        have "ok_groups i (length L) ([i..<i + length run] # gs)"
          by simp
        with r show ?thesis by auto
      qed
    qed
  qed
qed

lemma ok_groups_member:
  "ok_groups i n gs \<Longrightarrow> g \<in> set gs \<Longrightarrow>
   g = [hd g..<hd g + length g] \<and> i \<le> hd g \<and> 2 \<le> length g \<and> hd g + length g \<le> n"
proof (induction i n gs rule: ok_groups.induct)
  case (1 i n)
  then show ?case by simp
next
  case (2 i n h gs)
  show ?case
  proof (cases "g = h")
    case True
    with "2.prems" show ?thesis by simp
  next
    case False
    with "2.prems" have "g \<in> set gs" and "ok_groups (hd h + length h) n gs" and "i \<le> hd h"
      by auto
    with "2.IH" show ?thesis by fastforce
  qed
qed

lemma ok_groups_mem_iff:
  "ok_groups i n gs \<Longrightarrow> g \<in> set gs \<Longrightarrow> j \<in> set g \<longleftrightarrow> hd g \<le> j \<and> j < hd g + length g"
  by (metis atLeastLessThan_iff ok_groups_member set_upt)

lemma ok_groups_later:
  "ok_groups i n (h # gs) \<Longrightarrow> g \<in> set gs \<Longrightarrow> hd h + length h \<le> hd g"
  using ok_groups_member [of "hd h + length h" n gs g] by simp

lemma ok_groups_hd_distinct: "ok_groups i n gs \<Longrightarrow> distinct (map hd gs)"
proof (induction i n gs rule: ok_groups.induct)
  case (1 i n)
  then show ?case by simp
next
  case (2 i n h gs)
  have "hd g \<noteq> hd h" if "g \<in> set gs" for g
    using ok_groups_later [OF "2.prems" that] "2.prems" by simp
  then have "hd h \<notin> hd ` set gs" by (metis imageE)
  with "2.IH" "2.prems" show ?case by simp
qed

subsection \<open>The table of group entries\<close>

lemma fold_upd_other:
  "a \<notin> hd ` set gs \<Longrightarrow> fold (\<lambda>vi m. m(hd vi \<mapsto> f vi)) gs m a = m a"
  by (induction gs arbitrary: m) auto

lemma fold_upd_member:
  "distinct (map hd gs) \<Longrightarrow> g \<in> set gs \<Longrightarrow> fold (\<lambda>vi m. m(hd vi \<mapsto> f vi)) gs m (hd g) = Some (f g)"
proof (induction gs arbitrary: m)
  case Nil
  then show ?case by simp
next
  case (Cons h gs)
  show ?case
  proof (cases "g = h")
    case True
    with Cons.prems have "hd g \<notin> hd ` set gs" by auto
    then have "fold (\<lambda>vi m. m(hd vi \<mapsto> f vi)) gs (m(hd h \<mapsto> f h)) (hd g) = (m(hd h \<mapsto> f h)) (hd g)"
      by (rule fold_upd_other)
    with True show ?thesis by (simp only: fold_Cons comp_apply fun_upd_same)
  next
    case False
    with Cons show ?thesis by simp
  qed
qed

lemma group_table_lookup:
  "distinct (map hd gs) \<Longrightarrow> g \<in> set gs \<Longrightarrow> group_table L gs (hd g) = Some (group_entry L g)"
  by (simp add: group_table_def fold_upd_member)

subsection \<open>The emission loop, segment by segment\<close>

lemma emit_loop_singles:
  "list_all (\<lambda>p. fst p \<notin> set gtot) xs \<Longrightarrow>
   emit_loop gtot gnew (xs @ ys) new hv =
   emit_loop gtot gnew ys (new @ map (single_entry \<circ> snd) xs) (hv @ map (name \<circ> snd) xs)"
  by (induction xs arbitrary: new hv) (auto simp: single_entry_def)

lemma emit_loop_skip:
  "list_all (\<lambda>p. fst p \<in> set gtot \<and> name (snd p) \<in> set hv) xs \<Longrightarrow>
   emit_loop gtot gnew (xs @ ys) new hv = emit_loop gtot gnew ys new hv"
  by (induction xs) auto

lemma emit_loop_group:
  "a \<in> set gtot \<Longrightarrow> name v \<notin> set hv \<Longrightarrow> gnew a = Some G \<Longrightarrow>
   emit_loop gtot gnew ((a, v) # ys) new hv = emit_loop gtot gnew ys (new @ [G]) (hv @ vl_of G)"
  by simp

section \<open>The emission loop\<close>

lemma names_take_iff:
  assumes "distinct (map name L)" and "j < length L"
  shows "name (L ! j) \<in> set (map name (take a L)) \<longleftrightarrow> j < a"
proof
  assume "name (L ! j) \<in> set (map name (take a L))"
  then obtain x where x: "x < length (take a L)" and eq: "map name (take a L) ! x = name (L ! j)"
    by (metis in_set_conv_nth length_map)
  have xl: "x < length L" using x by simp
  have "map name L ! x = map name L ! j" using eq x assms(2) by simp
  then have "x = j"
    using nth_eq_iff_index_eq [OF assms(1), of x j] xl assms(2) by simp
  with x show "j < a" by simp
next
  assume "j < a"
  with assms(2) have "L ! j \<in> set (take a L)" by (metis in_set_conv_nth length_take min_less_iff_conj nth_take)
  then show "name (L ! j) \<in> set (map name (take a L))" by simp
qed

lemma map_nth_upt_take_drop:
  "a + k \<le> length L \<Longrightarrow> map (\<lambda>j. f (L ! j)) [a..<a + k] = map f (take k (drop a L))"
  by (rule nth_equalityI) auto

lemma enumerate_group_split:
  assumes "i \<le> a" and "0 < k" and "a + k \<le> length L"
  shows "enumerate i (drop i L) =
           enumerate i (take (a - i) (drop i L)) @ (a, L ! a) #
           enumerate (Suc a) (take (k - 1) (drop (Suc a) L)) @ enumerate (a + k) (drop (a + k) L)"
proof -
  have "drop (a - i) (drop i L) = drop a L" using assms(1) by simp
  then have d1: "drop i L = take (a - i) (drop i L) @ drop a L"
    using append_take_drop_id [of "a - i" "drop i L"] by simp
  have d2: "drop a L = L ! a # drop (Suc a) L"
    using assms by (simp add: Cons_nth_drop_Suc)
  have "drop (k - 1) (drop (Suc a) L) = drop (a + k) L" using assms(2) by (simp add: add.commute)
  then have d3: "drop (Suc a) L = take (k - 1) (drop (Suc a) L) @ drop (a + k) L"
    using append_take_drop_id [of "k - 1" "drop (Suc a) L"] by simp
  have l1: "length (take (a - i) (drop i L)) = a - i" using assms by simp
  have l3: "length (take (k - 1) (drop (Suc a) L)) = k - 1" using assms by simp
  have "enumerate i (drop i L) =
        enumerate i (take (a - i) (drop i L)) @ enumerate a (drop a L)"
    using assms by (subst d1) (simp add: enumerate_append_eq min_def)
  also have "enumerate a (drop a L) = (a, L ! a) # enumerate (Suc a) (drop (Suc a) L)"
    by (simp add: d2)
  also have "enumerate (Suc a) (drop (Suc a) L) =
        enumerate (Suc a) (take (k - 1) (drop (Suc a) L)) @ enumerate (a + k) (drop (a + k) L)"
    using assms by (subst d3) (simp add: enumerate_append_eq min_def)
  finally show ?thesis by simp
qed

lemma emit_loop_spec:
  assumes "ok_groups i (length L) gs"
    and "distinct (map name L)"
    and "set hv = set (map name (take i L))"
    and "\<And>j. i \<le> j \<Longrightarrow> j < length L \<Longrightarrow> j \<in> set gtot \<longleftrightarrow> (\<exists>g\<in>set gs. j \<in> set g)"
    and "\<And>g. g \<in> set gs \<Longrightarrow> gnew (hd g) = Some (group_entry L g)"
  shows "emit_loop gtot gnew (enumerate i (drop i L)) new hv = Inr (new @ spec_emit L i gs)"
  using assms
proof (induction gs arbitrary: i new hv)
  case Nil
  have "list_all (\<lambda>p. fst p \<notin> set gtot) (enumerate i (drop i L))"
    using Nil.prems(4) by (auto simp: list_all_iff in_set_enumerate_eq)
  from emit_loop_singles [OF this, of gnew "[]" new hv] show ?case
    by (simp flip: map_map)
next
  case (Cons g gs)
  define a where "a = hd g"
  define k where "k = length g"
  from Cons.prems(1) have g: "g = [a..<a + k]" and ia: "i \<le> a" and k2: "2 \<le> k"
    and ak: "a + k \<le> length L" and ok: "ok_groups (a + k) (length L) gs"
    by (simp_all add: a_def k_def)
  have later: "a + k \<le> j" if "g' \<in> set gs" "j \<in> set g'" for g' j
    using ok_groups_member [OF ok that(1)] ok_groups_mem_iff [OF ok that(1)] that(2) by simp
  define xs1 where "xs1 = enumerate i (take (a - i) (drop i L))"
  define xs3 where "xs3 = enumerate (Suc a) (take (k - 1) (drop (Suc a) L))"
  define rest where "rest = enumerate (a + k) (drop (a + k) L)"
  have split: "enumerate i (drop i L) = xs1 @ (a, L ! a) # xs3 @ rest"
    unfolding xs1_def xs3_def rest_def by (rule enumerate_group_split) (use ia k2 ak in auto)
  \<comment> \<open>the columns before the group\<close>
  have s1: "list_all (\<lambda>p. fst p \<notin> set gtot) xs1"
    unfolding list_all_iff
  proof
    fix p assume "p \<in> set xs1"
    then have j: "i \<le> fst p" "fst p < a" using ia by (auto simp: xs1_def in_set_enumerate_eq)
    show "fst p \<notin> set gtot"
    proof
      assume jin: "fst p \<in> set gtot"
      have "fst p < length L" using j ak by simp
      with j jin Cons.prems(4) obtain g' where g': "g' \<in> set (g # gs)" "fst p \<in> set g'" by auto
      have "g' \<noteq> g" using g'(2) g j by auto
      with g'(1) have "g' \<in> set gs" by simp
      from later [OF this g'(2)] j show False by simp
    qed
  qed
  define new1 where "new1 = new @ map single_entry (take (a - i) (drop i L))"
  define hv1 where "hv1 = hv @ map name (take (a - i) (drop i L))"
  have e1: "emit_loop gtot gnew (enumerate i (drop i L)) new hv =
            emit_loop gtot gnew ((a, L ! a) # xs3 @ rest) new1 hv1"
    using emit_loop_singles [OF s1, of gnew "(a, L ! a) # xs3 @ rest" new hv]
    by (simp add: split new1_def hv1_def xs1_def flip: map_map)
  have hv1_set: "set hv1 = set (map name (take a L))"
  proof -
    have tk: "take i L @ take (a - i) (drop i L) = take a L"
      using ia by (metis le_add_diff_inverse take_add)
    have "set hv1 = set (map name (take i L @ take (a - i) (drop i L)))"
      using Cons.prems(3) by (simp only: hv1_def set_append map_append)
    then show ?thesis by (simp only: tk)
  qed
  \<comment> \<open>the first member stands for the group\<close>
  have a_in: "a \<in> set gtot" using Cons.prems(4) [of a] ia ak k2 g by (auto simp del: upt_Suc)
  have a_new: "name (L ! a) \<notin> set hv1"
    using hv1_set names_take_iff [OF Cons.prems(2), of a a] ak k2 by simp
  have ga: "gnew a = Some (group_entry L g)" using Cons.prems(5) [of g] by (simp add: a_def)
  define new2 where "new2 = new1 @ [group_entry L g]"
  define hv2 where "hv2 = hv1 @ vl_of (group_entry L g)"
  have e2: "emit_loop gtot gnew ((a, L ! a) # xs3 @ rest) new1 hv1 = emit_loop gtot gnew (xs3 @ rest) new2 hv2"
    unfolding new2_def hv2_def by (rule emit_loop_group [where v = "L ! a" and a = a and gnew = gnew and G = "group_entry L g" and hv = hv1 and gtot = gtot, OF a_in a_new ga])
  have vl: "vl_of (group_entry L g) = map name (take k (drop a L))"
    using map_nth_upt_take_drop [OF ak, of name] g by (simp add: vl_of_def group_entry_def Let_def)
  have hv2_set: "set hv2 = set (map name (take (a + k) L))"
  proof -
    have "set hv2 = set (map name (take a L @ take k (drop a L)))"
      using hv1_set vl by (simp only: hv2_def set_append map_append)
    then show ?thesis by (simp only: take_add)
  qed
  \<comment> \<open>the other members are skipped\<close>
  have s3: "list_all (\<lambda>p. fst p \<in> set gtot \<and> name (snd p) \<in> set hv2) xs3"
    unfolding list_all_iff
  proof
    fix p assume p: "p \<in> set xs3"
    define j where "j = fst p"
    from p have j: "Suc a \<le> j" "j < a + k" and sp: "snd p = L ! j"
      using k2 ak by (auto simp: xs3_def in_set_enumerate_eq j_def)
    then have jl: "j < length L" and jg: "j \<in> set g" using ak g by auto
    have "j \<in> set gtot" using Cons.prems(4) [of j] j ia jl jg by auto
    moreover have "name (L ! j) \<in> set hv2"
      using hv2_set names_take_iff [OF Cons.prems(2) jl, of "a + k"] j by simp
    ultimately show "fst p \<in> set gtot \<and> name (snd p) \<in> set hv2" by (simp add: sp j_def)
  qed
  have e3: "emit_loop gtot gnew (xs3 @ rest) new2 hv2 = emit_loop gtot gnew rest new2 hv2"
    by (rule emit_loop_skip [OF s3])
  \<comment> \<open>the rest of the list, from the end of the group\<close>
  have e4: "emit_loop gtot gnew rest new2 hv2 = Inr (new2 @ spec_emit L (a + k) gs)"
    unfolding rest_def
  proof (rule Cons.IH [OF ok Cons.prems(2) hv2_set])
    fix j assume j: "a + k \<le> j" "j < length L"
    then have "j \<notin> set g" using g by simp
    then show "j \<in> set gtot \<longleftrightarrow> (\<exists>g\<in>set gs. j \<in> set g)"
      using Cons.prems(4) [of j] j ia by auto
  next
    fix g' assume "g' \<in> set gs"
    then show "gnew (hd g') = Some (group_entry L g')" using Cons.prems(5) by simp
  qed
  show ?case
    using e1 e2 e3 e4 by (simp add: new2_def new1_def a_def k_def)
qed

lemma spec_emit_vlists:
  "ok_groups i (length L) gs \<Longrightarrow> concat (map vl_of (spec_emit L i gs)) = map name (drop i L)"
proof (induction gs arbitrary: i)
  case Nil
  have "concat (map (\<lambda>v. [name v]) xs) = map name xs" for xs :: "result list"
    by (induction xs) auto
  then show ?case by (simp add: single_entry_def vl_of_def comp_def)
next
  case (Cons g gs)
  define a where "a = hd g"
  define k where "k = length g"
  from Cons.prems have g: "g = [a..<a + k]" and ia: "i \<le> a" and ak: "a + k \<le> length L"
    and ok: "ok_groups (a + k) (length L) gs"
    by (simp_all add: a_def k_def)
  have vl: "vl_of (group_entry L g) = map name (take k (drop a L))"
    using map_nth_upt_take_drop [OF ak, of name] g by (simp add: vl_of_def group_entry_def Let_def)
  have single: "concat (map vl_of (map single_entry xs)) = map name xs" for xs
    by (induction xs) (auto simp: single_entry_def vl_of_def)
  have d1: "drop i L = take (a - i) (drop i L) @ drop a L"
    using ia append_take_drop_id [of "a - i" "drop i L"] by simp
  have d2: "drop a L = take k (drop a L) @ drop (a + k) L"
    using append_take_drop_id [of k "drop a L"] by (simp add: add.commute)
  have "concat (map vl_of (spec_emit L i (g # gs))) =
        map name (take (a - i) (drop i L)) @ map name (take k (drop a L)) @ map name (drop (a + k) L)"
    using Cons.IH [OF ok] vl single by (simp add: a_def k_def)
  also have "\<dots> = map name (drop i L)"
    by (subst d1, subst d2) simp
  finally show ?case .
qed

lemma emit_groups_spec:
  assumes "scan_ref L 0 [] = Some gs" and "distinct (map name L)"
  shows "emit_groups L gs = Inr (spec_emit L 0 gs)"
proof -
  have ok: "ok_groups 0 (length L) gs" using scan_ref_ok_groups [OF assms(1)] by auto
  have "emit_loop (concat gs) (group_table L gs) (enumerate 0 (drop 0 L)) [] [] = Inr ([] @ spec_emit L 0 gs)"
  proof (rule emit_loop_spec [OF ok assms(2)])
    fix g assume "g \<in> set gs"
    then show "group_table L gs (hd g) = Some (group_entry L g)"
      by (rule group_table_lookup [OF ok_groups_hd_distinct [OF ok]])
  qed auto
  then show ?thesis by (simp add: emit_groups_def)
qed

lemma detection_wf_result:
  assumes "dtype_detection P cd st dt2cat c col = Inr (Some r, col')"
  shows "wf_result c r col'"
proof (cases col)
  case (NumCol s)
  with assms have "num_detection cd c s = (r, col')" by (simp only: dtype_detection_NumCol)
  then show ?thesis by (rule num_detection_wf)
next
  case (ObjCol s)
  with assms have "str_detection P st dt2cat c s = Inr (r, col')"
    by (auto split: sum.splits prod.splits)
  then show ?thesis by (rule str_detection_wf)
qed (use assms in \<open>auto simp: mk_result_def wf_result_def\<close>)

lemma detection_name:
  "dtype_detection P cd st dt2cat c col = Inr (Some r, col') \<Longrightarrow> name r = c"
  using detection_wf_result by (simp add: wf_result_def)

lemma detection_some_iff:
  "dtype_detection P cd st dt2cat c col = Inr (ro, col') \<Longrightarrow> (ro \<noteq> None \<longleftrightarrow> recognised col)"
  by (cases col) (auto split: prod.splits sum.splits)

lemma classify_columns_names:
  assumes "classify_columns P cs tbl = Inr (L, tbl')" and "distinct cs"
  shows "map name L = filter (\<lambda>c. case map_of tbl c of Some col \<Rightarrow> recognised col | None \<Rightarrow> False) cs"
  using assms
proof (induction cs arbitrary: tbl L tbl')
  case Nil
  then show ?case by simp
next
  case (Cons c cs)
  from Cons.prems(1) obtain col ro col' rs tbl2 where
    col: "map_of tbl c = Some col" and det: "dtype_detection P True True True c col = Inr (ro, col')"
    and rest: "classify_columns P cs (AList.update c col' tbl) = Inr (rs, tbl2)"
    and L: "L = (case ro of None \<Rightarrow> rs | Some x \<Rightarrow> x # rs)"
    by (auto simp: detect_in_table_def split: option.splits sum.splits prod.splits)
  have IH: "map name rs = filter (\<lambda>c'. case map_of (AList.update c col' tbl) c' of
      Some col \<Rightarrow> recognised col | None \<Rightarrow> False) cs"
    using Cons.IH [OF rest] Cons.prems(2) by simp
  have same: "map_of (AList.update c col' tbl) c' = map_of tbl c'" if "c' \<in> set cs" for c'
    using that Cons.prems(2) by (auto simp: update_conv')
  have IH': "map name rs = filter (\<lambda>c'. case map_of tbl c' of
      Some col \<Rightarrow> recognised col | None \<Rightarrow> False) cs"
    using IH same by (metis (no_types, lifting) filter_cong)
  show ?case
  proof (cases ro)
    case None
    with detection_some_iff [OF det] L IH' col show ?thesis by simp
  next
    case (Some x)
    with detection_some_iff [OF det] detection_name det L IH' col show ?thesis by simp
  qed
qed

lemma filter_keys_recognised:
  "distinct (map fst tbl) \<Longrightarrow>
   filter (\<lambda>c. case map_of tbl c of Some col \<Rightarrow> recognised col | None \<Rightarrow> False) (map fst tbl) =
   map fst (filter (\<lambda>(c, col). recognised col) tbl)"
proof (induction tbl)
  case Nil
  then show ?case by simp
next
  case (Cons p tbl)
  obtain c col where p: "p = (c, col)" by (cases p)
  with Cons.prems have nc: "c \<notin> set (map fst tbl)" and d: "distinct (map fst tbl)" by auto
  have "filter (\<lambda>c'. case map_of ((c, col) # tbl) c' of Some col \<Rightarrow> recognised col | None \<Rightarrow> False) (map fst tbl) =
        filter (\<lambda>c'. case map_of tbl c' of Some col \<Rightarrow> recognised col | None \<Rightarrow> False) (map fst tbl)"
    using nc by (intro filter_cong) auto
  with Cons.IH [OF d] p show ?case by simp
qed

section \<open>The vtype map of \<open>type_of_var\<close>\<close>

lemma type_of_var_loop_spec:
  assumes "distinct cs" and "type_of_var_loop P cs tbl m = Inr (m', t')" and "\<forall>c\<in>set cs. m c = None"
  shows "(c \<notin> set cs \<longrightarrow> m' c = m c \<and> map_of t' c = map_of tbl c) \<and>
         (c \<in> set cs \<longrightarrow> (\<exists>col r col'. map_of tbl c = Some col \<and>
            dtype_detection P True True False c col = Inr (r, col') \<and> m' c = map_option vtype r \<and>
            map_of t' c = Some col'))"
  using assms
proof (induction cs arbitrary: tbl m)
  case Nil
  then show ?case by simp
next
  case (Cons d cs)
  from Cons.prems(2) obtain col r col' where
    col: "map_of tbl d = Some col" and det: "dtype_detection P True True False d col = Inr (r, col')"
    and rest: "type_of_var_loop P cs (AList.update d col' tbl) (case r of None \<Rightarrow> m | Some x \<Rightarrow> m(d \<mapsto> vtype x)) = Inr (m', t')"
    by (auto simp: detect_in_table_def split: option.splits sum.splits prod.splits)
  define m1 where "m1 = (case r of None \<Rightarrow> m | Some x \<Rightarrow> m(d \<mapsto> vtype x))"
  have dcs: "d \<notin> set cs" "distinct cs" using Cons.prems(1) by auto
  have m1: "\<forall>c\<in>set cs. m1 c = None" using Cons.prems(3) dcs(1) by (cases r) (auto simp: m1_def)
  note IH = Cons.IH [OF dcs(2) rest [folded m1_def] m1]
  show ?case
  proof (cases "c = d")
    case True
    have "m' d = m1 d" and t: "map_of t' d = Some col'" using IH dcs(1) True by (simp_all add: update_conv')
    then have "m' d = map_option vtype r" using Cons.prems(3) by (cases r) (simp_all add: m1_def)
    then show ?thesis using True col det t by auto
  next
    case False
    have same: "map_of (AList.update d col' tbl) c = map_of tbl c" using False by (simp add: update_conv')
    have m1c: "m1 c = m c" using False by (cases r) (simp_all add: m1_def)
    show ?thesis using IH False same m1c by simp
  qed
qed

text \<open>The differences of consecutive elements telescope.\<close>

lemma sum_list_diffs: "xs \<noteq> [] \<Longrightarrow> sum_list (diffs xs) = last xs - hd xs"
  by (induction xs rule: diffs.induct) auto

section \<open>Properties\<close>

text \<open>
  C2: every recognised column of the table (numeric, object or datetime dtype) is named exactly once in the variable list, in table order: the \<open>var_list\<close> entries of \<open>var_detection\<close>'s result, concatenated, are the recognised column names; columns of other dtypes (and categorical columns) are dropped.
\<close>

theorem var_detection_partition:
  assumes "distinct (map fst tbl)" and "var_detection P True tbl = Some (Inr (vars, tbl'))"
  shows "concat (map vl_of vars) = map fst (filter (\<lambda>(c, col). recognised col) tbl)"
proof -
  obtain L tbl1 gs where cls: "classify_columns P (map fst tbl) tbl = Inr (L, tbl1)"
    and gs: "group_scan L 0 [] = Some gs" and em: "emit_groups L gs = Inr vars"
    using assms(2) by (auto simp: var_detection_def split: sum.splits option.splits prod.splits)
  have names: "map name L = map fst (filter (\<lambda>(c, col). recognised col) tbl)"
    using classify_columns_names [OF cls assms(1)] filter_keys_recognised [OF assms(1)] by simp
  have "distinct (map fst (filter (\<lambda>(c, col). recognised col) tbl))"
    using assms(1) by (simp add: distinct_map_filter)
  then have dist: "distinct (map name L)" by (simp only: names)
  have sr: "scan_ref L 0 [] = Some gs" by (rule group_scan_scan_ref [OF gs])
  have ok: "ok_groups 0 (length L) gs" using scan_ref_ok_groups [OF sr] by auto
  have "vars = spec_emit L 0 gs" using emit_groups_spec [OF sr dist] em by simp
  then show ?thesis using spec_emit_vlists [OF ok] names by simp
qed

text \<open>
  C3: the \<open>while\<close> loop of lines 278--293 computes the total reference scan \<open>scan_ref\<close>: where it returns, it returns the same groups, and it fails to return exactly where the reference meets a run of at least two numeric columns that is not a valid group.
\<close>

theorem group_scan_eq_scan_ref: "group_scan L i acc = scan_ref L i acc"
proof (cases "scan_ref L i acc")
  case None
  show ?thesis
  proof (cases "group_scan L i acc")
    case (Some r)
    then have "scan_ref L i acc = Some r" by (rule group_scan_scan_ref)
    with None show ?thesis by simp
  qed (simp add: None)
next
  case (Some r)
  then show ?thesis by (simp add: scan_ref_group_scan)
qed

text \<open>
  C4: the grouping loop never returns once it reaches two adjacent numeric columns that start a run of two or more which fails the same-prefix or the consecutive-suffix test: \<open>i\<close> is not advanced on that branch (line 291).
\<close>

theorem group_scan_diverges:
  assumes "Suc i < length L" and "vtype (L ! i) = Number" and "vtype (L ! Suc i) = Number"
    and "2 \<le> length (collect_run (drop i L))"
    and "\<not> (same_prefix (collect_run (drop i L)) \<and> suffix_span_ok (collect_run (drop i L)))"
  shows "group_scan L i acc = None"
proof (rule group_scan_None)
  show "scan_ref L i acc = None"
    using assms by (auto simp: scan_ref.simps [of L i acc] Let_def)
qed

text \<open>
  The spec's example of an ungroupable run, three numeric columns \<open>Q1_a, Q1_b, Q1_c\<close>, makes \<open>var_detection\<close> loop forever instead of leaving the columns ungrouped.
\<close>

theorem var_detection_q1_diverges: "var_detection std_parsers True tbl_q1 = None"
proof -
  have cls: "classify_columns std_parsers (map fst tbl_q1) tbl_q1 =
     Inr (num_results [''Q1_a'', ''Q1_b'', ''Q1_c''], tbl_q1)"
    by (simp add: tbl_q1_def num3_def num_results_def; code_simp)
  have "scan_ref (num_results [''Q1_a'', ''Q1_b'', ''Q1_c'']) 0 [] = None"
    by code_simp
  then have "group_scan (num_results [''Q1_a'', ''Q1_b'', ''Q1_c'']) 0 [] = None"
    by (rule group_scan_None)
  with cls show ?thesis by (simp add: var_detection_def)
qed

text \<open>
  Three numeric columns \<open>Item1, Item2, Item3\<close> become the single variable \<open>Item1-->Item3\<close> of type \<open>group_number\<close>, ordered, whose categories and variable list are the three names.
\<close>

theorem var_detection_items_grouped:
  "var_detection std_parsers True tbl_items = Some (Inr ([items_group], tbl_items))"
proof -
  have cls: "classify_columns std_parsers (map fst tbl_items) tbl_items =
     Inr (num_results [''Item1'', ''Item2'', ''Item3''], tbl_items)"
    by (simp add: tbl_items_def num3_def num_results_def; code_simp)
  have "scan_ref (num_results [''Item1'', ''Item2'', ''Item3'']) 0 [] = Some [[0, 1, 2]]"
    by code_simp
  then have gs: "group_scan (num_results [''Item1'', ''Item2'', ''Item3'']) 0 [] = Some [[0, 1, 2]]"
    by (rule scan_ref_group_scan)
  have em: "emit_groups (num_results [''Item1'', ''Item2'', ''Item3'']) [[0, 1, 2]] = Inr [items_group]"
    by code_simp
  show ?thesis using cls gs em by (simp add: var_detection_def)
qed

text \<open>
  The non-consecutive run \<open>X1, X5, X3\<close> is grouped as \<open>X1-->X3\<close>.
\<close>

theorem var_detection_nonconsecutive_grouped:
  "var_detection std_parsers True tbl_skip = Some (Inr ([skip_group], tbl_skip))"
proof -
  have cls: "classify_columns std_parsers (map fst tbl_skip) tbl_skip =
     Inr (num_results [''X1'', ''X5'', ''X3''], tbl_skip)"
    by (simp add: tbl_skip_def num3_def num_results_def; code_simp)
  have "scan_ref (num_results [''X1'', ''X5'', ''X3'']) 0 [] = Some [[0, 1, 2]]"
    by code_simp
  then have gs: "group_scan (num_results [''X1'', ''X5'', ''X3'']) 0 [] = Some [[0, 1, 2]]"
    by (rule scan_ref_group_scan)
  have em: "emit_groups (num_results [''X1'', ''X5'', ''X3'']) [[0, 1, 2]] = Inr [skip_group]"
    by code_simp
  show ?thesis using cls gs em by (simp add: var_detection_def)
qed

text \<open>
  C27: the suffix test of line 290, \<open>np.sum(np.diff(suffixes)) == len(run) - 1\<close>, only
  compares the span of the suffixes with the run length: on a non-empty run it holds exactly
  when the last suffix minus the first is the run length less one, whatever the suffixes in
  between. So \<open>X1, X5, X3\<close> passes (and is grouped), while the spec asks for
  consecutive suffixes.
\<close>

theorem suffix_span_ok_span:
  assumes "run \<noteq> []"
  shows "suffix_span_ok run \<longleftrightarrow>
         int (digits_nat (snd (last run))) - int (digits_nat (snd (hd run))) = int (length run) - 1"
proof -
  let ?xs = "map (\<lambda>p. int (digits_nat (snd p))) run"
  have "sum_list (diffs ?xs) = last ?xs - hd ?xs"
    using assms by (intro sum_list_diffs) simp
  then show ?thesis using assms by (simp add: suffix_span_ok_def last_map hd_map)
qed

text \<open>
  C32: a column named by a prefix without digits or newlines, the decimal digits of \<open>k\<close>, and a tail that does not start with a digit is matched by the name pattern of line 271 as that prefix and those digits, and \<open>int()\<close> of the digits gives back \<open>k\<close> (line 290).
\<close>

theorem name_match_roundtrip:
  assumes "\<forall>ch\<in>set p. \<not> is_digit ch \<and> ch \<noteq> CHR ''\<newline>''" and "q = [] \<or> \<not> is_digit (hd q)"
  shows "name_match (p @ nat_str k @ q) = Some (p, nat_str k) \<and> digits_nat (nat_str k) = k"
proof -
  obtain c cs where ns: "nat_str k = c # cs" using nat_str_nonempty [of k] by (cases "nat_str k") auto
  have dig: "\<forall>ch\<in>set (nat_str k). is_digit ch" by (rule nat_str_digits)
  have pre: "takeWhile (\<lambda>ch. \<not> is_digit ch) (p @ nat_str k @ q) = p"
    using assms(1) dig ns by (simp add: takeWhile_append2)
  have rest: "dropWhile (\<lambda>ch. \<not> is_digit ch) (p @ nat_str k @ q) = nat_str k @ q"
    using assms(1) dig ns by (simp add: dropWhile_append2)
  have tw: "takeWhile (\<lambda>ch. ch \<noteq> CHR ''\<newline>'') (rev p) = rev p"
    by (subst takeWhile_eq_all_conv) (use assms(1) in auto)
  have nl: "rev (takeWhile (\<lambda>ch. ch \<noteq> CHR ''\<newline>'') (rev p)) = p"
    by (simp only: tw rev_rev_ident)
  have ds: "takeWhile is_digit (nat_str k @ q) = nat_str k"
    using dig assms(2) by (cases q) (simp_all add: takeWhile_append2)
  show ?thesis
    using pre rest nl ds ns digits_nat_nat_str [of k] by (simp add: name_match_def Let_def)
qed

text \<open>
  C33: with distinct column names and either value of \<open>inplace\<close>, \<open>type_of_var\<close>
  maps exactly the classified columns, each to the vtype \<open>dtype_detection\<close> gives the
  original column with \<open>datetime_to_category\<close> off, and the table it leaves holds the
  column \<open>dtype_detection\<close> rewrote: \<open>inplace=False\<close> does not protect the caller's
  data, since \<open>data.loc[:, :]\<close> is the same frame in pandas 1.x.
\<close>

theorem type_of_var_spec:
  assumes "distinct (map fst tbl)" and "type_of_var P inplace tbl = Inr (m, t)"
  shows "dom m \<subseteq> set (map fst tbl) \<and>
         (\<forall>c col. map_of tbl c = Some col \<longrightarrow>
            (\<exists>r col'. dtype_detection P True True False c col = Inr (r, col') \<and> m c = map_option vtype r \<and>
                      map_of t c = Some col'))"
proof -
  have loop: "type_of_var_loop P (map fst tbl) tbl Map.empty = Inr (m, t)"
    using assms(2) by (auto simp: type_of_var_def split: sum.splits prod.splits)
  note spec = type_of_var_loop_spec [OF assms(1) loop, simplified]
  have "dom m \<subseteq> set (map fst tbl)"
  proof
    fix x assume "x \<in> dom m"
    then show "x \<in> set (map fst tbl)" using spec [of x] by auto
  qed
  moreover have "\<exists>r col'. dtype_detection P True True False c col = Inr (r, col') \<and> m c = map_option vtype r \<and>
      map_of t c = Some col'"
    if "map_of tbl c = Some col" for c col
  proof -
    have "c \<in> set (map fst tbl)" using that by (force dest: map_of_SomeD)
    then show ?thesis using spec [of c] that by auto
  qed
  ultimately show ?thesis by auto
qed

section \<open>Witnesses\<close>

lemma var_detection_partition_witness:
  "distinct (map fst tbl_mixed) \<and>
   var_detection std_parsers True tbl_mixed = Some (Inr (mixed_vars, tbl_mixed)) \<and>
   concat (map vl_of mixed_vars) = [''id'', ''Item1'', ''Item2'']"
proof -
  define L where "L = [mk_result ''id'' Text False [], mk_result ''Item1'' Number False [],
     mk_result ''Item2'' Number False []]"
  have d: "distinct (map fst tbl_mixed)" by (simp add: tbl_mixed_def)
  have cls: "classify_columns std_parsers (map fst tbl_mixed) tbl_mixed = Inr (L, tbl_mixed)"
    by (simp add: tbl_mixed_def num3_def L_def; code_simp)
  have "scan_ref L 0 [] = Some [[1, 2]]" by (simp add: L_def; code_simp)
  then have gs: "group_scan L 0 [] = Some [[1, 2]]" by (rule scan_ref_group_scan)
  have em: "emit_groups L [[1, 2]] = Inr mixed_vars" by (simp add: L_def mixed_vars_def; code_simp)
  have vd: "var_detection std_parsers True tbl_mixed = Some (Inr (mixed_vars, tbl_mixed))"
    using cls gs em by (simp add: var_detection_def)
  have "concat (map vl_of mixed_vars) = map fst (filter (\<lambda>(c, col). recognised col) tbl_mixed)"
    by (rule var_detection_partition [OF d vd])
  then show ?thesis using d vd by (simp add: tbl_mixed_def num3_def)
qed

lemma group_scan_diverges_witness:
  "Suc 0 < length (num_results [''Q1_a'', ''Q1_b'', ''Q1_c'']) \<and>
   group_scan (num_results [''Q1_a'', ''Q1_b'', ''Q1_c'']) 0 [] = None"
proof -
  define L where "L = num_results [''Q1_a'', ''Q1_b'', ''Q1_c'']"
  have h: "Suc 0 < length L \<and> vtype (L ! 0) = Number \<and> vtype (L ! Suc 0) = Number \<and>
     2 \<le> length (collect_run (drop 0 L)) \<and>
     \<not> (same_prefix (collect_run (drop 0 L)) \<and> suffix_span_ok (collect_run (drop 0 L)))"
    by (simp add: L_def num_results_def; code_simp)
  then have "group_scan L 0 [] = None" using group_scan_diverges [of 0 L] by blast
  with h show ?thesis by (simp add: L_def)
qed

lemma suffix_span_ok_span_witness:
  "[(''X'', ''1''), (''X'', ''5''), (''X'', ''3'')] \<noteq> [] \<and>
   suffix_span_ok [(''X'', ''1''), (''X'', ''5''), (''X'', ''3'')]"
proof -
  have "int (digits_nat ''3'') - int (digits_nat ''1'') = int (length [(''X'', ''1''), (''X'', ''5''), (''X'', ''3'')]) - 1"
    by code_simp
  with suffix_span_ok_span [of "[(''X'', ''1''), (''X'', ''5''), (''X'', ''3'')]"] show ?thesis by simp
qed

lemma name_match_roundtrip_witness:
  "name_match ''Item3'' = Some (''Item'', ''3'') \<and> digits_nat ''3'' = 3"
proof -
  have n3: "nat_str 3 = ''3''" by code_simp
  have "\<forall>ch\<in>set ''Item''. \<not> is_digit ch \<and> ch \<noteq> CHR ''\<newline>''" by (simp add: is_digit_def)
  from name_match_roundtrip [OF this, of "[]" 3] show ?thesis by (simp add: n3)
qed

lemma type_of_var_spec_witness:
  "distinct (map fst [(''q'', NumCol [Some 1, Some 1, Some 1, Some 2, Some 2, Some 2])]) \<and>
   (\<exists>m t. type_of_var std_parsers False [(''q'', NumCol [Some 1, Some 1, Some 1, Some 2, Some 2, Some 2])] = Inr (m, t) \<and> m ''q'' = Some Category \<and>
          map_of t ''q'' = Some (CatCol [SNum 1, SNum 2] False (map (map_option SNum) [Some 1, Some 1, Some 1, Some 2, Some 2, Some 2])))"
proof -
  have d: "distinct (map fst [(''q'', NumCol [Some 1, Some 1, Some 1, Some 2, Some 2, Some 2])])" by simp
  have "\<not> isl (type_of_var std_parsers False [(''q'', NumCol [Some 1, Some 1, Some 1, Some 2, Some 2, Some 2])])" by code_simp
  then obtain m t where r: "type_of_var std_parsers False [(''q'', NumCol [Some 1, Some 1, Some 1, Some 2, Some 2, Some 2])] = Inr (m, t)"
    by (cases "type_of_var std_parsers False [(''q'', NumCol [Some 1, Some 1, Some 1, Some 2, Some 2, Some 2])]") auto
  have det: "dtype_detection std_parsers True True False ''q'' (NumCol [Some 1, Some 1, Some 1, Some 2, Some 2, Some 2]) =
      Inr (Some (mk_result ''q'' Category False [SNum 1, SNum 2]), CatCol [SNum 1, SNum 2] False (map (map_option SNum) [Some 1, Some 1, Some 1, Some 2, Some 2, Some 2]))"
    by code_simp
  have "map_of [(''q'', NumCol [Some 1, Some 1, Some 1, Some 2, Some 2, Some 2])] ''q'' = Some (NumCol [Some 1, Some 1, Some 1, Some 2, Some 2, Some 2])" by simp
  with type_of_var_spec [OF d r]
  have "\<exists>r col'. dtype_detection std_parsers True True False ''q''
      (NumCol [Some 1, Some 1, Some 1, Some 2, Some 2, Some 2]) = Inr (r, col') \<and>
      m ''q'' = map_option vtype r \<and> map_of t ''q'' = Some col'" by blast
  with det have "m ''q'' = Some Category \<and> map_of t ''q'' = Some (CatCol [SNum 1, SNum 2] False (map (map_option SNum) [Some 1, Some 1, Some 1, Some 2, Some 2, Some 2]))"
    by (auto simp: mk_result_def)
  then show ?thesis using d r by blast
qed

end
