(* ===== verification/Distribution.thy ===== *)
theory Distribution
  imports Prelude
begin

text \<open>
  The Distribution Estimator of \<open>src/reportgen/analysis.py\<close>, lines 42--94:
  \<open>_freedman_diaconis_bins\<close> and \<open>distributions\<close>. A numeric array is a list of reals
  (arithmetic is exact: float rounding is not modelled). The library calls the code makes are
  modelled by their documented semantics: \<open>np.percentile\<close> (linear interpolation) under
  \<open>utils.iqr\<close>, \<open>np.histogram\<close> with an integer bin count, \<open>np.linspace\<close>, and the fit
  and evaluation of \<open>scipy.stats.gaussian_kde\<close> in one dimension. Output arrays whose
  entries may be NaN are series (\<open>None\<close> is NaN).
\<close>

section \<open>Percentiles and the interquartile range\<close>

text \<open>
  \<open>np.percentile(a, q)\<close> with linear interpolation: the \<open>q\<close>-th percentile sits at the
  virtual index \<open>q/100 * (n - 1)\<close> of the sorted data and interpolates between its two
  neighbours.
\<close>

definition lerp_at :: "real list \<Rightarrow> real \<Rightarrow> real" where
  "lerp_at s pos =
     (let lo = nat \<lfloor>pos\<rfloor>; hi = min (Suc lo) (length s - 1)
      in s ! lo + (pos - real lo) * (s ! hi - s ! lo))"

definition percentile :: "real list \<Rightarrow> real \<Rightarrow> real" where
  "percentile a q = lerp_at (sort a) (q / 100 * real (length a - 1))"

text \<open>\<open>utils.iqr\<close>: the 75th minus the 25th percentile.\<close>

definition iqr :: "real list \<Rightarrow> real" where
  "iqr a = percentile a 75 - percentile a 25"

section \<open>The Freedman--Diaconis bin count (lines 42--51)\<close>

text \<open>
  \<open>h = 2 * iqr(a) / len(a) ** (1/3)\<close>; \<open>int(np.sqrt(a.size))\<close> bins when \<open>h\<close> is
  zero, \<open>int(np.ceil((a.max() - a.min()) / h))\<close> otherwise. On an empty array
  \<open>a.max()\<close> raises \<open>ValueError\<close> (a numpy that rejects the empty percentile first
  raises \<open>IndexError\<close> instead: either way the call raises).
\<close>

definition fd_bins :: "real list \<Rightarrow> pyerr + int" where
  "fd_bins a =
     (if a = [] then Inl ValueError
      else
        (let h = 2 * iqr a / root 3 (real (length a))
         in if h = 0 then Inr (int (isqrt (length a)))
            else Inr \<lceil>(Max (set a) - Min (set a)) / h\<rceil>))"

text \<open>
  An exact evaluation of \<open>\<lceil>c * n ** (1/3)\<rceil>\<close> for \<open>c \<ge> 0\<close>: the least \<open>m\<close> with
  \<open>c\<^sup>3 * n \<le> m\<^sup>3\<close>, found by counting up (it serves as the code equation of
  \<open>fd_bins\<close>).
\<close>

function cbrt_ceil :: "real \<Rightarrow> nat \<Rightarrow> nat" where
  "cbrt_ceil x m = (if x \<le> real (m ^ 3) then m else cbrt_ceil x (Suc m))"
  by auto
termination
proof (relation "measure (\<lambda>(x, m). nat \<lceil>x\<rceil> - m)")
  fix x :: real and m :: nat
  assume "\<not> x \<le> real (m ^ 3)"
  moreover have "m \<le> m ^ 3"
    using power_increasing [of 1 3 m] by (cases m) auto
  ultimately have "real m < x" by linarith
  then have "m < nat \<lceil>x\<rceil>" by linarith
  then show "((x, Suc m), x, m) \<in> measure (\<lambda>(x, m). nat \<lceil>x\<rceil> - m)" by simp
qed simp

section \<open>numpy's histogram\<close>

text \<open>
  \<open>np.linspace(start, stop, num)\<close>: \<open>num\<close> equally spaced points from \<open>start\<close> to
  \<open>stop\<close> inclusive; a single point is \<open>start\<close>.
\<close>

definition linspace :: "real \<Rightarrow> real \<Rightarrow> nat \<Rightarrow> real list" where
  "linspace start stop num =
     (if num = 1 then [start]
      else map (\<lambda>i. start + real i * ((stop - start) / real (num - 1))) [0..<num])"

text \<open>
  The range of \<open>np.histogram\<close>: \<open>(0, 1)\<close> for an empty array, \<open>(min, max)\<close>
  otherwise, widened by a half on both sides when the two coincide.
\<close>

definition hist_range :: "real list \<Rightarrow> real \<times> real" where
  "hist_range a =
     (let (lo, hi) = (if a = [] then (0, 1) else (Min (set a), Max (set a)))
      in if lo = hi then (lo - 1 / 2, hi + 1 / 2) else (lo, hi))"

text \<open>
  The bin of a value in the range, as numpy computes it for equal-width bins:
  \<open>int((x - lo) * (k / (hi - lo)))\<close>, the right edge falling into the last bin. (numpy then
  corrects the index by comparing with the edges, against float rounding; in exact
  arithmetic the correction changes nothing, see \<open>bin_index_edges\<close>.)
\<close>

definition bin_index :: "real \<Rightarrow> real \<Rightarrow> nat \<Rightarrow> real \<Rightarrow> nat" where
  "bin_index lo hi k x =
     (let i = nat \<lfloor>(x - lo) * (real k / (hi - lo))\<rfloor> in if i = k then k - 1 else i)"

text \<open>
  \<open>np.histogram(a, bins=k)\<close> for an integer \<open>k\<close>: \<open>ValueError\<close> unless \<open>k\<close> is
  positive; otherwise the count of each bin and the \<open>k + 1\<close> edges.
\<close>

definition histogram :: "real list \<Rightarrow> int \<Rightarrow> pyerr + nat list \<times> real list" where
  "histogram a bins =
     (if bins < 1 then Inl ValueError
      else
        (let k = nat bins; (lo, hi) = hist_range a;
             idx = map (bin_index lo hi k) (filter (\<lambda>x. lo \<le> x \<and> x \<le> hi) a)
         in Inr (map (count_list idx) [0..<k], linspace lo hi (Suc k))))"

text \<open>\<open>counts / counts.sum()\<close> (line 71): NaN everywhere when the counts sum to zero.\<close>

definition norm_counts :: "nat list \<Rightarrow> real series" where
  "norm_counts cs =
     map (\<lambda>c. if sum_list cs = 0 then None else Some (real c / real (sum_list cs))) cs"

section \<open>The Gaussian kernel density estimate\<close>

text \<open>Scott's factor \<open>n ** (-1 / (d + 4))\<close>, here with \<open>d = 1\<close>.\<close>

definition scotts_factor :: "nat \<Rightarrow> real" where
  "scotts_factor n = real n powr (- 1 / 5)"

record kde_model =
  kde_dataset :: "real list"
  kde_factor :: real
  kde_covariance :: real

text \<open>
  \<open>stats.gaussian_kde(a)\<close>: \<open>ValueError\<close> unless the data has more than one element;
  the kernel covariance is the sample variance (\<open>ddof = 1\<close>) times the squared factor, and
  its inversion raises \<open>LinAlgError\<close> when it is singular, that is when the data are
  constant. The bandwidth argument \<open>'scott'\<close> is the default, so both calls of lines
  76 and 78 build the same model.
\<close>

definition gaussian_kde :: "real list \<Rightarrow> pyerr + kde_model" where
  "gaussian_kde a =
     (if length a \<le> 1 then Inl ValueError
      else
        (let v = sum_list (map (\<lambda>x. (x - mean a)\<^sup>2) a) / real (length a - 1)
         in if v = 0 then Inl LinAlgError
            else Inr \<lparr>kde_dataset = a, kde_factor = scotts_factor (length a),
                      kde_covariance = v * (scotts_factor (length a))\<^sup>2\<rparr>))"

text \<open>
  Lines 75--79: the fit, retried without \<open>bw_method\<close> on \<open>TypeError\<close> only. Scott's
  rule, which line 73 asks for, is scipy's default bandwidth, so both calls build the same
  model; \<open>bw_method\<close> is therefore not a parameter of \<open>gaussian_kde\<close> here, and the
  retry matters only through the exceptions it lets pass.
\<close>

definition kde_fit :: "real list \<Rightarrow> pyerr + kde_model" where
  "kde_fit a =
     (case gaussian_kde a of
        Inl TypeError \<Rightarrow> gaussian_kde a
      | r \<Rightarrow> r)"

text \<open>\<open>kdemodel(x)\<close>: the mean of the Gaussian kernels centred on the data.\<close>

definition kde_eval :: "kde_model \<Rightarrow> real \<Rightarrow> real" where
  "kde_eval m x =
     sum_list (map (\<lambda>xi. exp (- (x - xi)\<^sup>2 / (2 * kde_covariance m))) (kde_dataset m)) /
     (real (length (kde_dataset m)) * sqrt (2 * pi * kde_covariance m))"

text \<open>
  Lines 80--86: the support bandwidth \<open>scotts_factor() * np.std(a)\<close> (population standard
  deviation) and the support \<open>[min - 3 bw, max + 3 bw]\<close>, cut to \<open>clip\<close> when one is
  given (the default clip is unbounded).
\<close>

definition kde_bw :: "real list \<Rightarrow> kde_model \<Rightarrow> real" where
  "kde_bw a m = kde_factor m * pop_std a"

definition kde_support :: "real list \<Rightarrow> kde_model \<Rightarrow> (real \<times> real) option \<Rightarrow> real \<times> real" where
  "kde_support a m clip =
     (let bw = kde_bw a m; lo = Min (set a) - bw * 3; hi = Max (set a) + bw * 3
      in case clip of None \<Rightarrow> (lo, hi) | Some (cl, ch) \<Rightarrow> (max lo cl, min hi ch))"

section \<open>distributions (lines 54--94)\<close>

record dist_args =
  hist :: bool
  bins :: "int option"
  norm_hist :: bool
  kde :: bool
  grid :: "real list option"
  gridsize :: nat
  clip :: "(real \<times> real) option"

definition default_args :: dist_args where
  "default_args = \<lparr>hist = True, bins = None, norm_hist = True, kde = True, grid = None,
     gridsize = 100, clip = None\<rparr>"

datatype dist_out =
    HistOut "real series" "real list"
  | KdeOut "real list" "real list"
  | BothOut "real series \<times> real list" "real list \<times> real list"
  | NoOut

text \<open>
  Lines 64--71: the histogram part, the bin count defaulting to \<open>min(fd, 50)\<close>. Line 64,
  \<open>np.asarray(a).squeeze()\<close>, turns a one-element array into a 0-d array, whose
  \<open>len(a)\<close> in \<open>_freedman_diaconis_bins\<close> (line 45) raises \<open>TypeError\<close>;
  \<open>np.histogram\<close> with a given bin count accepts it.
\<close>

definition hist_part :: "real list \<Rightarrow> dist_args \<Rightarrow> pyerr + real series \<times> real list" where
  "hist_part a args =
     (case (case bins args of
              None \<Rightarrow> if length a = 1 then Inl TypeError else map_sum id (\<lambda>b. min b 50) (fd_bins a)
            | Some b \<Rightarrow> Inr b) of
        Inl e \<Rightarrow> Inl e
      | Inr k \<Rightarrow>
          (case histogram a k of
             Inl e \<Rightarrow> Inl e
           | Inr (cs, edges) \<Rightarrow>
               Inr (if norm_hist args then norm_counts cs else map (\<lambda>c. Some (real c)) cs, edges)))"

text \<open>Lines 72--87: the density part, on the given grid or on \<open>gridsize\<close> points of the support.\<close>

definition kde_part :: "real list \<Rightarrow> dist_args \<Rightarrow> pyerr + real list \<times> real list" where
  "kde_part a args =
     (case kde_fit a of
        Inl e \<Rightarrow> Inl e
      | Inr m \<Rightarrow>
          (let g = (case grid args of
                      Some g \<Rightarrow> g
                    | None \<Rightarrow> (let (lo, hi) = kde_support a m (clip args) in linspace lo hi (gridsize args)))
           in Inr (g, map (kde_eval m) g)))"

definition distributions :: "real list \<Rightarrow> dist_args \<Rightarrow> pyerr + dist_out" where
  "distributions a args =
     (case (if hist args then map_sum id Some (hist_part a args) else Inr None) of
        Inl e \<Rightarrow> Inl e
      | Inr h \<Rightarrow>
          (case (if kde args then map_sum id Some (kde_part a args) else Inr None) of
             Inl e \<Rightarrow> Inl e
           | Inr k \<Rightarrow>
               Inr (case (h, k) of
                      (Some (cs, edges), None) \<Rightarrow> HistOut cs edges
                    | (None, Some (g, y)) \<Rightarrow> KdeOut g y
                    | (Some hc, Some kc) \<Rightarrow> BothOut hc kc
                    | (None, None) \<Rightarrow> NoOut)))"

section \<open>Lemmas on percentiles\<close>

lemma lerp_at_bounds:
  assumes "sorted s" and "0 \<le> pos" and "pos \<le> real (length s - 1)" and "s \<noteq> []"
  shows "s ! nat \<lfloor>pos\<rfloor> \<le> lerp_at s pos"
    and "lerp_at s pos \<le> s ! min (Suc (nat \<lfloor>pos\<rfloor>)) (length s - 1)"
proof -
  define lo where "lo = nat \<lfloor>pos\<rfloor>"
  define hi where "hi = min (Suc lo) (length s - 1)"
  define f where "f = pos - real lo"
  have lo_le: "lo \<le> length s - 1" using assms(2,3) unfolding lo_def by (simp add: nat_le_iff floor_le_iff)
  have "lo \<le> hi" unfolding hi_def using lo_le by simp
  moreover have "hi < length s" unfolding hi_def using assms(4) by (cases s) auto
  ultimately have mono: "s ! lo \<le> s ! hi" using assms(1) by (simp add: sorted_nth_mono)
  have f: "0 \<le> f" "f \<le> 1" unfolding f_def lo_def using assms(2) by linarith+
  have eq: "lerp_at s pos = s ! lo + f * (s ! hi - s ! lo)"
    by (simp add: lerp_at_def Let_def lo_def hi_def f_def)
  have "0 \<le> f * (s ! hi - s ! lo)" using f mono by simp
  then show "s ! nat \<lfloor>pos\<rfloor> \<le> lerp_at s pos" using eq by (simp add: lo_def)
  have "f * (s ! hi - s ! lo) \<le> 1 * (s ! hi - s ! lo)" using f mono by (intro mult_right_mono) simp_all
  then show "lerp_at s pos \<le> s ! min (Suc (nat \<lfloor>pos\<rfloor>)) (length s - 1)" using eq by (simp add: lo_def hi_def)
qed

lemma lerp_at_mono:
  assumes "sorted s" and "0 \<le> p" and "p \<le> q" and "q \<le> real (length s - 1)" and "s \<noteq> []"
  shows "lerp_at s p \<le> lerp_at s q"
proof (cases "nat \<lfloor>p\<rfloor> = nat \<lfloor>q\<rfloor>")
  case True
  define lo where "lo = nat \<lfloor>p\<rfloor>"
  define hi where "hi = min (Suc lo) (length s - 1)"
  have "p \<le> real (length s - 1)" using assms(3,4) by simp
  then have "lo \<le> length s - 1" unfolding lo_def using assms(2) by (simp add: nat_le_iff floor_le_iff)
  moreover have "length s \<noteq> 0" using assms(5) by simp
  ultimately have lo_le: "lo \<le> hi" "hi < length s" unfolding hi_def by linarith+
  then have "s ! lo \<le> s ! hi" using assms(1) by (simp add: sorted_nth_mono)
  then have "(p - real lo) * (s ! hi - s ! lo) \<le> (q - real lo) * (s ! hi - s ! lo)"
    using assms(3) by (intro mult_right_mono) simp_all
  then show ?thesis using True by (simp add: lerp_at_def Let_def lo_def hi_def)
next
  case False
  have "nat \<lfloor>p\<rfloor> \<le> nat \<lfloor>q\<rfloor>" using assms(3) by (simp add: floor_mono nat_mono)
  with False have lt: "nat \<lfloor>p\<rfloor> < nat \<lfloor>q\<rfloor>" by (simp only: order.not_eq_order_implies_strict)
  have q0: "0 \<le> q" using assms(2,3) by simp
  have "nat \<lfloor>q\<rfloor> \<le> length s - 1" using assms(4) q0 by (simp add: nat_le_iff floor_le_iff)
  moreover have "length s \<noteq> 0" using assms(5) by simp
  ultimately have "min (Suc (nat \<lfloor>p\<rfloor>)) (length s - 1) \<le> nat \<lfloor>q\<rfloor>" "nat \<lfloor>q\<rfloor> < length s"
    using lt by linarith+
  then have mid: "s ! min (Suc (nat \<lfloor>p\<rfloor>)) (length s - 1) \<le> s ! nat \<lfloor>q\<rfloor>"
    using assms(1) by (simp add: sorted_nth_mono)
  have "p \<le> real (length s - 1)" using assms(3,4) by simp
  from lerp_at_bounds(2) [OF assms(1,2) this assms(5)] lerp_at_bounds(1) [OF assms(1) q0 assms(4,5)] mid
  show ?thesis by linarith
qed

lemma percentile_pos:
  assumes "0 \<le> q" and "q \<le> 100"
  shows "0 \<le> q / 100 * real (length a - 1)" and "q / 100 * real (length a - 1) \<le> real (length a - 1)"
proof -
  show "0 \<le> q / 100 * real (length a - 1)" using assms by simp
  have "q / 100 * real (length a - 1) \<le> 1 * real (length a - 1)"
    using assms by (intro mult_right_mono) simp_all
  then show "q / 100 * real (length a - 1) \<le> real (length a - 1)" by simp
qed

lemma sort_nonempty: "a \<noteq> [] \<Longrightarrow> sort a \<noteq> []"
  by (metis length_0_conv length_sort)

lemma percentile_mono:
  assumes "a \<noteq> []" and "0 \<le> p" and "p \<le> q" and "q \<le> 100"
  shows "percentile a p \<le> percentile a q"
proof -
  have "p / 100 \<le> q / 100" using assms(3) by simp
  then have le: "p / 100 * real (length a - 1) \<le> q / 100 * real (length a - 1)"
    by (rule mult_right_mono) simp
  have q: "q / 100 * real (length a - 1) \<le> real (length (sort a) - 1)"
    using percentile_pos(2) [of q a] assms by simp
  have p100: "p \<le> 100" using assms(3,4) by simp
  show ?thesis
    unfolding percentile_def
    by (rule lerp_at_mono [OF sorted_sort percentile_pos(1) [OF assms(2) p100] le q sort_nonempty [OF assms(1)]])
qed

lemma sort_nth_Min: "a \<noteq> [] \<Longrightarrow> sort a ! 0 = Min (set a)"
proof (rule Min_eqI [symmetric])
  assume a: "a \<noteq> []"
  then have ne: "sort a \<noteq> []" by (rule sort_nonempty)
  fix y assume "y \<in> set a"
  then obtain j where "j < length (sort a)" "sort a ! j = y" by (metis in_set_conv_nth set_sort)
  then show "sort a ! 0 \<le> y" using sorted_nth_mono [OF sorted_sort, of 0 j a] by simp
next
  assume "a \<noteq> []"
  then have "sort a ! 0 \<in> set (sort a)" using sort_nonempty by (metis length_greater_0_conv nth_mem)
  then show "sort a ! 0 \<in> set a" by simp
qed simp

lemma sort_nth_Max: "a \<noteq> [] \<Longrightarrow> sort a ! (length a - 1) = Max (set a)"
proof (rule Max_eqI [symmetric])
  assume a: "a \<noteq> []"
  fix y assume "y \<in> set a"
  then obtain j where "j < length (sort a)" "sort a ! j = y" by (metis in_set_conv_nth set_sort)
  then show "y \<le> sort a ! (length a - 1)"
    using sorted_nth_mono [OF sorted_sort, of j "length a - 1" a] by simp
next
  assume "a \<noteq> []"
  then have "length a - 1 < length (sort a)" by simp
  then have "sort a ! (length a - 1) \<in> set (sort a)" by (rule nth_mem)
  then show "sort a ! (length a - 1) \<in> set a" by simp
qed simp

lemma percentile_bounds:
  assumes "a \<noteq> []" and "0 \<le> q" and "q \<le> 100"
  shows "Min (set a) \<le> percentile a q \<and> percentile a q \<le> Max (set a)"
proof -
  have s: "sorted (sort a)" "sort a \<noteq> []" "length (sort a) = length a"
    using sort_nonempty [OF assms(1)] by auto
  have "percentile a 0 \<le> percentile a q" "percentile a q \<le> percentile a 100"
    using percentile_mono assms by auto
  moreover have "percentile a 0 = sort a ! 0"
    by (simp add: percentile_def lerp_at_def)
  moreover have "percentile a 100 = sort a ! (length a - 1)"
    using assms(1) by (simp add: percentile_def lerp_at_def Let_def)
  moreover have "sort a ! 0 = Min (set a)" "sort a ! (length a - 1) = Max (set a)"
    using sort_nth_Min sort_nth_Max assms(1) by auto
  ultimately show ?thesis by simp
qed

lemma iqr_nonneg: "a \<noteq> [] \<Longrightarrow> 0 \<le> iqr a"
  using percentile_mono [of a 25 75] by (simp add: iqr_def)

lemma iqr_pos_range: "a \<noteq> [] \<Longrightarrow> iqr a \<noteq> 0 \<Longrightarrow> Min (set a) < Max (set a)"
  using percentile_bounds [of a 25] percentile_bounds [of a 75] percentile_mono [of a 25 75]
  by (simp add: iqr_def)

lemma set_const: "a \<noteq> [] \<Longrightarrow> \<forall>x\<in>set a. x = c \<Longrightarrow> set a = {c}"
  by (cases a) auto

lemma iqr_const: "a \<noteq> [] \<Longrightarrow> \<forall>x\<in>set a. x = c \<Longrightarrow> iqr a = 0"
  using percentile_bounds [of a 25] percentile_bounds [of a 75] set_const [of a c]
  by (simp add: iqr_def)

section \<open>Lemmas on the bin count\<close>

declare cbrt_ceil.simps [simp del]

lemma cbrt_ceil_spec:
  "m \<le> cbrt_ceil x m \<and> x \<le> real (cbrt_ceil x m ^ 3) \<and>
   (\<forall>k. m \<le> k \<longrightarrow> k < cbrt_ceil x m \<longrightarrow> \<not> x \<le> real (k ^ 3))"
proof (induction x m rule: cbrt_ceil.induct)
  case (1 x m)
  show ?case
  proof (cases "x \<le> real (m ^ 3)")
    case True
    then show ?thesis by (simp add: cbrt_ceil.simps [of x m])
  next
    case False
    have eq: "cbrt_ceil x m = cbrt_ceil x (Suc m)" using False by (simp add: cbrt_ceil.simps [of x m])
    show ?thesis
      unfolding eq using "1.IH" [OF False] False by (metis Suc_leD le_antisym not_less_eq_eq)
  qed
qed

lemma ceiling_mult_root3:
  assumes "0 \<le> c"
  shows "\<lceil>c * root 3 (real n)\<rceil> = int (cbrt_ceil (c ^ 3 * real n) 0)"
proof -
  define y where "y = c * root 3 (real n)"
  define m where "m = cbrt_ceil (c ^ 3 * real n) 0"
  have y0: "0 \<le> y" using assms by (simp add: y_def)
  have y3: "y ^ 3 = c ^ 3 * real n"
    by (simp add: y_def power_mult_distrib)
  from cbrt_ceil_spec [where x = "c ^ 3 * real n" and m = 0]
  have up: "y ^ 3 \<le> real m ^ 3" and below: "\<And>k. k < m \<Longrightarrow> real k ^ 3 < y ^ 3"
    by (auto simp: y3 m_def not_le)
  have "y ^ Suc 2 \<le> real m ^ Suc 2" using up by simp
  then have "y \<le> real m" by (rule power_le_imp_le_base) simp
  moreover have "real m - 1 < y"
  proof (cases m)
    case 0
    then show ?thesis using y0 by simp
  next
    case (Suc k)
    have "real k < y" using below [of k] Suc by (intro power_less_imp_less_base [OF _ y0]) simp
    then show ?thesis using Suc by simp
  qed
  ultimately show ?thesis unfolding y_def [symmetric] m_def [symmetric]
    by (intro ceiling_unique) simp_all
qed

lemma fd_bins_code [code]:
  "fd_bins a =
     (if a = [] then Inl ValueError
      else if iqr a = 0 then Inr (int (isqrt (length a)))
      else Inr (int (cbrt_ceil (((Max (set a) - Min (set a)) / (2 * iqr a)) ^ 3 * real (length a)) 0)))"
proof (cases "a = []")
  case False
  have r: "0 < root 3 (real (length a))" using False by simp
  have c: "0 \<le> (Max (set a) - Min (set a)) / (2 * iqr a)"
    using iqr_nonneg [OF False] percentile_bounds [OF False, of 0] by simp
  have "(Max (set a) - Min (set a)) / (2 * iqr a / root 3 (real (length a))) =
        (Max (set a) - Min (set a)) / (2 * iqr a) * root 3 (real (length a))"
    by simp
  then show ?thesis
    using False r ceiling_mult_root3 [OF c, of "length a"] by (simp add: fd_bins_def Let_def)
qed (simp add: fd_bins_def)

lemma isqrt_pos: "0 < n \<Longrightarrow> 0 < isqrt n"
  using isqrt_from_bounds [of 0 n] by (cases "isqrt_from n 0") (auto simp: isqrt_code)

lemma fd_bins_pos:
  assumes "a \<noteq> []" and "fd_bins a = Inr b"
  shows "1 \<le> b"
proof (cases "iqr a = 0")
  case True
  with assms have "b = int (isqrt (length a))" by (simp add: fd_bins_code)
  then show ?thesis using isqrt_pos [of "length a"] assms(1) by simp
next
  case False
  have rng: "Min (set a) < Max (set a)" by (rule iqr_pos_range [OF assms(1) False])
  have h: "0 < 2 * iqr a / root 3 (real (length a))"
    using iqr_nonneg [OF assms(1)] False assms(1) by simp
  with assms False have "b = \<lceil>(Max (set a) - Min (set a)) / (2 * iqr a / root 3 (real (length a)))\<rceil>"
    by (simp add: fd_bins_def Let_def)
  moreover have "0 < (Max (set a) - Min (set a)) / (2 * iqr a / root 3 (real (length a)))"
    using rng h by (rule divide_pos_pos [OF diff_gt_0_iff_gt [THEN iffD2]])
  ultimately show ?thesis by simp
qed

section \<open>Lemmas on the histogram\<close>

lemma hist_range_lt: "fst (hist_range a) < snd (hist_range a)"
proof (cases "a = []")
  case False
  have "Min (set a) \<le> Max (set a)" using percentile_bounds [OF False, of 0] by simp
  then show ?thesis using False by (auto simp: hist_range_def Let_def less_le)
qed (simp add: hist_range_def)

lemma hist_range_covers:
  "x \<in> set a \<Longrightarrow> fst (hist_range a) \<le> x \<and> x \<le> snd (hist_range a)"
proof -
  assume x: "x \<in> set a"
  then have a: "a \<noteq> []" by auto
  have "Min (set a) \<le> x" "x \<le> Max (set a)" using x by simp_all
  then show ?thesis using a by (auto simp: hist_range_def Let_def)
qed

lemma bin_index_lt:
  assumes "lo < hi" and "0 < k" and "lo \<le> x" and "x \<le> hi"
  shows "bin_index lo hi k x < k"
proof -
  have "(x - lo) * (real k / (hi - lo)) \<le> (hi - lo) * (real k / (hi - lo))"
    using assms by (intro mult_right_mono) simp_all
  also have "\<dots> = real k" using assms(1) by simp
  finally have "nat \<lfloor>(x - lo) * (real k / (hi - lo))\<rfloor> \<le> k"
    by (metis floor_mono floor_of_nat nat_int nat_mono)
  then show ?thesis using assms(2) by (auto simp: bin_index_def Let_def)
qed

lemma sum_count_list_upt:
  "\<forall>i\<in>set xs. i < k \<Longrightarrow> sum_list (map (count_list xs) [0..<k]) = length (xs :: nat list)"
  by (simp add: sum_list_distinct_conv_sum_set sum_count_set subsetI atLeast0LessThan)

lemma histogram_Inr:
  "1 \<le> k \<Longrightarrow> \<exists>cs e. histogram a k = Inr (cs, e) \<and> length cs = nat k \<and> length e = Suc (nat k)"
  by (simp add: histogram_def linspace_def Let_def split: prod.split)

lemma linspace_nth:
  "2 \<le> num \<Longrightarrow> j < num \<Longrightarrow> linspace lo hi num ! j = lo + real j * ((hi - lo) / real (num - 1))"
  by (simp add: linspace_def)

lemma bin_index_iff:
  assumes "lo < hi" and "0 < k" and "lo \<le> x" and "x \<le> hi" and "b < k"
  shows "bin_index lo hi k x = b \<longleftrightarrow>
         lo + real b * ((hi - lo) / real k) \<le> x \<and>
         (x < lo + real (Suc b) * ((hi - lo) / real k) \<or> Suc b = k)"
proof -
  define w where "w = (hi - lo) / real k"
  define t where "t = (x - lo) * (real k / (hi - lo))"
  have w0: "0 < w" using assms(1,2) by (simp add: w_def)
  have tw: "t = (x - lo) / w" by (simp add: t_def w_def)
  have t0: "0 \<le> t" using assms(1,3) by (simp add: t_def)
  have "(x - lo) * (real k / (hi - lo)) \<le> (hi - lo) * (real k / (hi - lo))"
    using assms by (intro mult_right_mono) simp_all
  then have tk: "t \<le> real k" using assms(1) by (simp add: t_def)
  have e1: "lo + real b * w \<le> x \<longleftrightarrow> real b \<le> t"
    using w0 by (simp add: tw le_divide_eq algebra_simps)
  have e2: "x < lo + real (Suc b) * w \<longleftrightarrow> t < real b + 1"
    using w0 by (simp add: tw divide_less_eq algebra_simps)
  have fl: "nat \<lfloor>t\<rfloor> = b \<longleftrightarrow> real b \<le> t \<and> t < real b + 1"
    using t0 by (auto simp: nat_eq_iff floor_eq_iff)
  have fk: "nat \<lfloor>t\<rfloor> = k \<longleftrightarrow> t = real k"
    using t0 tk by (auto simp: nat_eq_iff floor_eq_iff)
  have bi: "bin_index lo hi k x = (if t = real k then k - 1 else nat \<lfloor>t\<rfloor>)"
    using fk by (simp add: bin_index_def Let_def t_def)
  show ?thesis
    unfolding w_def [symmetric] e1 e2 bi
    using fl assms(5) tk by (cases "t = real k") auto
qed

lemma count_list_map: "count_list (map f xs) b = length (filter (\<lambda>x. f x = b) xs)"
  by (induction xs) auto

lemma histogram_unfold:
  assumes "histogram a k = Inr (cs, e)"
  shows "1 \<le> k \<and> cs = map (count_list (map (bin_index (fst (hist_range a)) (snd (hist_range a)) (nat k)) a)) [0..<nat k] \<and>
         e = linspace (fst (hist_range a)) (snd (hist_range a)) (Suc (nat k))"
proof -
  have keep: "filter (\<lambda>x. fst (hist_range a) \<le> x \<and> x \<le> snd (hist_range a)) a = a"
    using hist_range_covers by (simp add: filter_id_conv)
  show ?thesis using assms keep
    by (auto simp: histogram_def Let_def split: if_splits prod.splits)
qed

lemma bin_index_in_set:
  "x \<in> set a \<Longrightarrow> 0 < k \<Longrightarrow> bin_index (fst (hist_range a)) (snd (hist_range a)) k x < k"
  using bin_index_lt [OF hist_range_lt] hist_range_covers by blast

lemma histogram_sum:
  assumes "histogram a k = Inr (cs, e)"
  shows "sum_list cs = length a"
proof -
  from histogram_unfold [OF assms] have k: "0 < nat k"
    and cs: "cs = map (count_list (map (bin_index (fst (hist_range a)) (snd (hist_range a)) (nat k)) a)) [0..<nat k]"
    by auto
  have "\<forall>i\<in>set (map (bin_index (fst (hist_range a)) (snd (hist_range a)) (nat k)) a). i < nat k"
    using bin_index_in_set [OF _ k] by auto
  from sum_count_list_upt [OF this] show ?thesis by (simp add: cs)
qed

lemma sum_list_map_divide:
  "sum_list (map (\<lambda>c. real c / d) cs) = real (sum_list cs) / d"
  by (induction cs) (auto simp: add_divide_distrib)

lemma hist_part_default_bins:
  assumes "2 \<le> length a" and "bins args = None"
  shows "\<exists>cs e. hist_part a args = Inr (cs, e) \<and> 1 \<le> length cs \<and> length cs \<le> 50"
proof -
  have ne: "a \<noteq> []" using assms(1) by auto
  have "\<exists>b. fd_bins a = Inr b" using ne by (simp add: fd_bins_def Let_def)
  then obtain b where fd: "fd_bins a = Inr b" by blast
  have b1: "1 \<le> b" by (rule fd_bins_pos [OF ne fd])
  then have "1 \<le> min b 50" by simp
  from histogram_Inr [OF this] obtain cs e where
    h: "histogram a (min b 50) = Inr (cs, e)" and l: "length cs = nat (min b 50)" by blast
  have "1 \<le> nat (min b 50) \<and> nat (min b 50) \<le> 50" using b1 by auto
  then show ?thesis
    using assms fd h l by (simp add: hist_part_def norm_counts_def)
qed

section \<open>Lemmas on the density estimate\<close>

lemma kde_var_zero_iff:
  assumes "2 \<le> length a"
  shows "sum_list (map (\<lambda>x. (x - mean a)\<^sup>2) a) / real (length a - 1) = 0 \<longleftrightarrow> (\<forall>x\<in>set a. x = hd a)"
proof -
  have "a \<noteq> []" "real (length a - 1) \<noteq> 0" using assms by auto
  then show ?thesis by (simp add: sum_sq_dev_zero_iff all_eq_hd_iff_mean)
qed

lemma gaussian_kde_cases:
  "gaussian_kde a = Inl ValueError \<and> length a \<le> 1 \<or>
   gaussian_kde a = Inl LinAlgError \<and> 2 \<le> length a \<and> (\<forall>x\<in>set a. x = hd a) \<or>
   (\<exists>m. gaussian_kde a = Inr m \<and> 2 \<le> length a \<and> \<not> (\<forall>x\<in>set a. x = hd a) \<and> kde_dataset m = a \<and>
        0 < kde_covariance m \<and> kde_factor m = scotts_factor (length a))"
proof (cases "length a \<le> 1")
  case False
  then have two: "2 \<le> length a" by simp
  define v where "v = sum_list (map (\<lambda>x. (x - mean a)\<^sup>2) a) / real (length a - 1)"
  have v0: "0 \<le> v" unfolding v_def using sum_sq_dev_nonneg by simp
  have ne: "a \<noteq> []" using two by auto
  then have sf: "0 < scotts_factor (length a)" by (simp add: scotts_factor_def)
  show ?thesis
  proof (cases "v = 0")
    case True
    then show ?thesis using two kde_var_zero_iff [OF two] by (simp add: gaussian_kde_def v_def)
  next
    case nz: False
    then have "0 < v * (scotts_factor (length a))\<^sup>2" using v0 sf by simp
    then show ?thesis using two nz kde_var_zero_iff [OF two]
      by (simp add: gaussian_kde_def v_def Let_def)
  qed
qed (simp add: gaussian_kde_def)

lemma kde_fit_cases:
  "kde_fit a = Inl ValueError \<and> length a \<le> 1 \<or>
   kde_fit a = Inl LinAlgError \<and> 2 \<le> length a \<and> (\<forall>x\<in>set a. x = hd a) \<or>
   (\<exists>m. kde_fit a = Inr m \<and> 2 \<le> length a \<and> \<not> (\<forall>x\<in>set a. x = hd a) \<and> kde_dataset m = a \<and>
        0 < kde_covariance m \<and> kde_factor m = scotts_factor (length a))"
  using gaussian_kde_cases [of a] by (auto simp: kde_fit_def)

lemma sum_list_map_pos:
  "xs \<noteq> [] \<Longrightarrow> (\<And>x. x \<in> set xs \<Longrightarrow> 0 < f x) \<Longrightarrow> 0 < sum_list (map f xs)"
  for f :: "'a \<Rightarrow> real"
proof (induction xs)
  case (Cons x xs)
  have "0 \<le> sum_list (map f xs)"
    using Cons.prems(2) by (intro sum_list_nonneg) (auto intro: less_imp_le)
  with Cons.prems(2) [of x] show ?case by simp
qed simp

lemma kde_eval_pos:
  assumes "kde_fit a = Inr m"
  shows "0 < kde_eval m x"
proof -
  from assms kde_fit_cases [of a] have ds: "kde_dataset m = a" and cv: "0 < kde_covariance m"
    and two: "2 \<le> length a" by auto
  then have ne: "a \<noteq> []" by auto
  have num: "0 < sum_list (map (\<lambda>xi. exp (- (x - xi)\<^sup>2 / (2 * kde_covariance m))) a)"
    using ne by (rule sum_list_map_pos) simp
  have den: "0 < real (length a) * sqrt (2 * pi * kde_covariance m)"
    using ne cv by simp
  from num den show ?thesis by (simp add: kde_eval_def ds)
qed

lemma linspace_length: "length (linspace lo hi num) = num"
  by (simp add: linspace_def)

lemma linspace_ends:
  assumes "2 \<le> num"
  shows "hd (linspace lo hi num) = lo" and "last (linspace lo hi num) = hi"
proof -
  have ne: "linspace lo hi num \<noteq> []" using assms linspace_length [of lo hi num] by auto
  show "hd (linspace lo hi num) = lo"
    using linspace_nth [OF assms, of 0 lo hi] assms ne by (simp add: hd_conv_nth)
  have "linspace lo hi num ! (num - 1) = hi"
    using linspace_nth [OF assms, of "num - 1" lo hi] assms by simp
  then show "last (linspace lo hi num) = hi"
    using ne by (simp add: last_conv_nth linspace_length)
qed

lemma linspace_sorted:
  assumes "lo \<le> hi"
  shows "sorted (linspace lo hi num)"
proof (cases "num = 1")
  case False
  have step: "0 \<le> (hi - lo) / real (num - 1)" using assms by simp
  show ?thesis
    unfolding sorted_iff_nth_mono
  proof (intro allI impI)
    fix i j assume ij: "i \<le> j" "j < length (linspace lo hi num)"
    then have "real i * ((hi - lo) / real (num - 1)) \<le> real j * ((hi - lo) / real (num - 1))"
      using step by (intro mult_right_mono) simp_all
    then show "linspace lo hi num ! i \<le> linspace lo hi num ! j"
      using ij False by (simp add: linspace_def)
  qed
qed (simp add: linspace_def)

lemma kde_fit_Inr:
  "kde_fit a = Inr m \<Longrightarrow> kde_dataset m = a \<and> 2 \<le> length a \<and> 0 < kde_factor m \<and> 0 < kde_covariance m"
  using kde_fit_cases [of a] by (auto simp: scotts_factor_def)

lemma kde_support_covers:
  assumes "kde_fit a = Inr m"
  shows "fst (kde_support a m None) \<le> Min (set a) \<and> Max (set a) \<le> snd (kde_support a m None)"
proof -
  have "0 \<le> kde_bw a m"
    using kde_fit_Inr [OF assms] by (simp add: kde_bw_def pop_std_def sum_sq_dev_nonneg)
  then show ?thesis by (simp add: kde_support_def Let_def)
qed

lemma Min_le_Max_list: "a \<noteq> [] \<Longrightarrow> Min (set a) \<le> Max (set a)" for a :: "real list"
  using percentile_bounds [of a 0] by simp

lemma kde_part_default_grid:
  assumes "kde_part a args = Inr (g, y)" and "grid args = None" and "clip args = None"
    and "2 \<le> gridsize args"
  shows "length g = gridsize args \<and> sorted g \<and> hd g \<le> Min (set a) \<and> Max (set a) \<le> last g \<and>
         length y = length g"
proof -
  obtain m where m: "kde_fit a = Inr m"
    and g: "g = linspace (fst (kde_support a m None)) (snd (kde_support a m None)) (gridsize args)"
    and y: "y = map (kde_eval m) g"
    using assms(1-3) by (auto simp: kde_part_def Let_def split: sum.splits prod.splits)
  have ne: "a \<noteq> []" using kde_fit_Inr [OF m] by auto
  have cov: "fst (kde_support a m None) \<le> Min (set a)" "Max (set a) \<le> snd (kde_support a m None)"
    using kde_support_covers [OF m] by auto
  then have "fst (kde_support a m None) \<le> snd (kde_support a m None)"
    using Min_le_Max_list [OF ne] by linarith
  then show ?thesis
    using cov linspace_ends [OF assms(4)] linspace_sorted linspace_length
    by (simp add: g y)
qed

lemma kde_part_constant:
  "2 \<le> length a \<Longrightarrow> \<forall>x\<in>set a. x = hd a \<Longrightarrow> kde_part a args = Inl LinAlgError"
  using kde_fit_cases [of a] by (auto simp: kde_part_def)

section \<open>Properties\<close>

text \<open>
  C6: with \<open>norm_hist\<close> on and a non-empty array, the histogram counts \<open>distributions\<close> returns are all defined (no NaN) and sum to 1.
\<close>

theorem hist_part_normalized:
  assumes "a \<noteq> []" and "norm_hist args" and "hist_part a args = Inr (cs, e)"
  shows "\<exists>ps. cs = map Some ps \<and> sum_list ps = 1"
proof -
  obtain k cs0 where h: "histogram a k = Inr (cs0, e)" and cs: "cs = norm_counts cs0"
    using assms(2,3) by (auto simp: hist_part_def split: option.splits sum.splits prod.splits if_splits)
  have tot: "sum_list cs0 = length a" by (rule histogram_sum [OF h])
  then have "sum_list cs0 \<noteq> 0" using assms(1) by simp
  then have "cs = map Some (map (\<lambda>c. real c / real (sum_list cs0)) cs0)"
    by (simp add: cs norm_counts_def)
  moreover have "sum_list (map (\<lambda>c. real c / real (sum_list cs0)) cs0) = 1"
    using \<open>sum_list cs0 \<noteq> 0\<close> by (simp add: sum_list_map_divide)
  ultimately show ?thesis by blast
qed

text \<open>
  C7: on a constant non-empty array the Freedman--Diaconis rule falls back to \<open>int(np.sqrt(n))\<close>, the floor of the square root: for two equal values it gives 1 bin where the ceiling the spec asks for gives 2.
\<close>

theorem fd_bins_constant:
  assumes "a \<noteq> []" and "\<forall>x\<in>set a. x = c"
  shows "fd_bins a = Inr (int (isqrt (length a)))"
  using iqr_const [OF assms] assms(1) by (simp add: fd_bins_def Let_def)

text \<open>
  numpy's bin index computation agrees with the definition of a histogram: the count of bin \<open>b\<close> is the number of values \<open>x\<close> with \<open>edge_b \<le> x < edge_(b+1)\<close>, the last bin also holding its right edge.
\<close>

theorem histogram_counts_spec:
  assumes "histogram a k = Inr (cs, e)" and "b < length cs"
  shows "cs ! b = length (filter (\<lambda>x. e ! b \<le> x \<and> (x < e ! Suc b \<or> Suc b = length cs)) a)"
proof -
  define lo where "lo = fst (hist_range a)"
  define hi where "hi = snd (hist_range a)"
  define n where "n = nat k"
  from histogram_unfold [OF assms(1)] have n0: "0 < n"
    and cs: "cs = map (count_list (map (bin_index lo hi n) a)) [0..<n]"
    and e: "e = linspace lo hi (Suc n)"
    by (auto simp: lo_def hi_def n_def)
  have bn: "b < n" using assms(2) cs by simp
  have lohi: "lo < hi" using hist_range_lt by (simp add: lo_def hi_def)
  have eb: "e ! b = lo + real b * ((hi - lo) / real n)" "e ! Suc b = lo + real (Suc b) * ((hi - lo) / real n)"
    using linspace_nth [of "Suc n" "b" lo hi] linspace_nth [of "Suc n" "Suc b" lo hi] bn n0 by (simp_all add: e)
  have "cs ! b = length (filter (\<lambda>x. bin_index lo hi n x = b) a)"
    using bn by (simp add: cs count_list_map)
  also have "\<dots> = length (filter (\<lambda>x. e ! b \<le> x \<and> (x < e ! Suc b \<or> Suc b = length cs)) a)"
  proof (rule arg_cong [where f = length], rule filter_cong [OF refl])
    fix x assume "x \<in> set a"
    then have "lo \<le> x" "x \<le> hi" using hist_range_covers by (auto simp: lo_def hi_def)
    from bin_index_iff [OF lohi n0 this bn] show "bin_index lo hi n x = b \<longleftrightarrow> e ! b \<le> x \<and> (x < e ! Suc b \<or> Suc b = length cs)"
      by (simp add: eb cs)
  qed
  finally show ?thesis .
qed

text \<open>
  C28: with the default bin count the histogram has between 1 and 50 bins and one more edge than bins, so the default never makes \<open>np.histogram\<close> raise.
\<close>

theorem hist_bins_bounds:
  assumes "a \<noteq> []" and "bins args = None" and "hist_part a args = Inr (cs, e)"
  shows "1 \<le> length cs \<and> length cs \<le> 50 \<and> length e = Suc (length cs)"
proof -
  have "\<exists>b. fd_bins a = Inr b" using assms(1) by (simp add: fd_bins_def Let_def)
  then obtain b where fd: "fd_bins a = Inr b" by blast
  have b1: "1 \<le> b" by (rule fd_bins_pos [OF assms(1) fd])
  obtain cs0 where h: "histogram a (min b 50) = Inr (cs0, e)" and len: "length cs = length cs0"
    using assms(2,3) fd by (auto simp: hist_part_def norm_counts_def split: sum.splits prod.splits if_splits)
  from histogram_unfold [OF h] have "length cs0 = nat (min b 50)" "length e = Suc (nat (min b 50))"
    by (simp_all add: linspace_length)
  then show ?thesis using b1 len by auto
qed

text \<open>
  C29: with the default bin count the histogram part fails in exactly two ways:
  \<open>ValueError\<close> on an empty array (\<open>a.max()\<close> of line 51) and \<open>TypeError\<close> on a
  single value, which the \<open>squeeze()\<close> of line 64 turns into a 0-d array without
  \<open>len\<close>; every array of two or more values gets a histogram.
\<close>

theorem hist_part_default_errors:
  assumes "bins args = None"
  shows "hist_part a args = Inl e \<longleftrightarrow> a = [] \<and> e = ValueError \<or> length a = 1 \<and> e = TypeError"
proof (cases "2 \<le> length a")
  case True
  then obtain cs ed where "hist_part a args = Inr (cs, ed)"
    using hist_part_default_bins [OF True assms] by blast
  with True show ?thesis by auto
next
  case False
  then have "length a = 0 \<or> length a = 1" by linarith
  then consider "a = []" | "length a = 1" by auto
  then show ?thesis
    by cases (use assms in \<open>auto simp: hist_part_def fd_bins_def\<close>)
qed

text \<open>
  C30: with the default arguments and at least two values that are not all equal, \<open>distributions\<close> returns both a histogram of 1 to 50 bins and a density on 100 sorted grid points that span the data, with positive density everywhere on the grid.
\<close>

theorem distributions_default_both:
  assumes "2 \<le> length a" and "\<not> (\<forall>x\<in>set a. x = hd a)"
  shows "\<exists>cs e g y. distributions a default_args = Inr (BothOut (cs, e) (g, y)) \<and>
           1 \<le> length cs \<and> length cs \<le> 50 \<and> length g = 100 \<and> sorted g \<and>
           hd g \<le> Min (set a) \<and> Max (set a) \<le> last g \<and> (\<forall>v\<in>set y. 0 < v)"
proof -
  have ne: "a \<noteq> []" using assms(1) by auto
  obtain cs e where h: "hist_part a default_args = Inr (cs, e)" and l: "1 \<le> length cs" "length cs \<le> 50"
    using hist_part_default_bins [OF assms(1), of default_args] by (auto simp: default_args_def)
  obtain m where m: "kde_fit a = Inr m" using kde_fit_cases [of a] assms by auto
  define g where "g = linspace (fst (kde_support a m None)) (snd (kde_support a m None)) 100"
  have k: "kde_part a default_args = Inr (g, map (kde_eval m) g)"
    using m by (simp add: kde_part_def default_args_def g_def Let_def split: prod.split)
  have grid: "length g = 100 \<and> sorted g \<and> hd g \<le> Min (set a) \<and> Max (set a) \<le> last g \<and>
      length (map (kde_eval m) g) = length g"
    using kde_part_default_grid [OF k] by (simp add: default_args_def)
  have pos: "\<forall>v\<in>set (map (kde_eval m) g). 0 < v" using kde_eval_pos [OF m] by auto
  have "distributions a default_args = Inr (BothOut (cs, e) (g, map (kde_eval m) g))"
    using h k by (simp add: distributions_def default_args_def)
  then show ?thesis using l grid pos by blast
qed

text \<open>
  C8: with the density on, two or more equal values make \<open>distributions\<close> raise \<open>LinAlgError\<close>: the retry of line 78 catches only \<open>TypeError\<close>, so singular data are never retried.
\<close>

theorem distributions_constant_error:
  assumes "kde args" and "hist args \<longrightarrow> bins args = None"
    and "2 \<le> length a" and "\<forall>x\<in>set a. x = hd a"
  shows "distributions a args = Inl LinAlgError"
proof -
  have ne: "a \<noteq> []" using assms(3) by auto
  have h: "\<exists>r. (if hist args then map_sum id Some (hist_part a args) else Inr None) = Inr r"
  proof (cases "hist args")
    case True
    then obtain cs e where "hist_part a args = Inr (cs, e)"
      using hist_part_default_bins [OF assms(3), of args] assms(2) by auto
    then show ?thesis using True by simp
  qed simp
  then obtain r where "(if hist args then map_sum id Some (hist_part a args) else Inr None) = Inr r" by blast
  then show ?thesis
    using kde_part_constant [OF assms(3,4)] assms(1) by (simp add: distributions_def)
qed

text \<open>
  C31: the density estimate fails in exactly two ways: \<open>ValueError\<close> on fewer than two values and \<open>LinAlgError\<close> on constant data.
\<close>

theorem kde_part_errors:
  assumes "kde_part a args = Inl e"
  shows "e = ValueError \<and> length a \<le> 1 \<or> e = LinAlgError \<and> 2 \<le> length a \<and> (\<forall>x\<in>set a. x = hd a)"
proof -
  have "kde_fit a = Inl e" using assms by (auto simp: kde_part_def Let_def split: sum.splits)
  then show ?thesis using kde_fit_cases [of a] by auto
qed

text \<open>
  The \<open>try\<close>/\<open>except TypeError\<close> retry of lines 75--79 never fires: it is equivalent to a single call of \<open>gaussian_kde\<close>.
\<close>

theorem kde_fit_eq: "kde_fit a = gaussian_kde a"
  using gaussian_kde_cases [of a] by (auto simp: kde_fit_def)

section \<open>Witnesses\<close>

lemma hist_part_example:
  "hist_part [1, 2, 2, 3, 7] default_args =
     Inr (map Some [1 / 5, 2 / 5, 1 / 5, 0, 0, 1 / 5], [1, 2, 3, 4, 5, 6, 7])"
  by (simp add: default_args_def; code_simp)

lemma hist_part_normalized_witness:
  "[1, 2, 2, 3, 7 :: real] \<noteq> [] \<and> norm_hist default_args \<and>
   (\<exists>ps. map Some [1 / 5, 2 / 5, 1 / 5, 0, 0, 1 / 5 :: real] = map Some ps \<and> sum_list ps = 1)"
  using hist_part_normalized [OF _ _ hist_part_example] by (simp add: default_args_def)

lemma fd_bins_constant_witness:
  "fd_bins [5, 5] = Inr 1 \<and> \<lceil>sqrt 2\<rceil> = (2 :: int)"
proof -
  have "fd_bins [5, 5] = Inr (int (isqrt (length [5, 5 :: real])))"
    by (rule fd_bins_constant [where c = 5]) simp_all
  moreover have "isqrt 2 = 1" by (rule isqrt_eqI) simp_all
  moreover have "\<lceil>sqrt 2\<rceil> = (2 :: int)"
  proof (rule ceiling_unique)
    have "1 < sqrt (2 :: real)" by (simp add: real_less_rsqrt)
    then show "real_of_int 2 - 1 < sqrt 2" by simp
    have "sqrt (2 :: real) \<le> sqrt 4" by (rule real_sqrt_le_mono) simp
    then show "sqrt 2 \<le> real_of_int 2" by (simp only: real_sqrt_four of_int_numeral)
  qed
  ultimately show ?thesis by (simp add: numeral_2_eq_2)
qed

lemma histogram_counts_spec_witness:
  "histogram [1, 2, 2, 3, 7] 3 = Inr ([3, 1, 1], [1, 3, 5, 7]) \<and> 1 < length [3, 1, 1 :: nat] \<and>
   [3, 1, 1 :: nat] ! 1 =
     length (filter (\<lambda>x. [1, 3, 5, 7] ! 1 \<le> x \<and> (x < [1, 3, 5, 7 :: real] ! Suc 1 \<or> Suc 1 = length [3, 1, 1 :: nat]))
       [1, 2, 2, 3, 7])"
proof -
  have h: "histogram [1, 2, 2, 3, 7] 3 = Inr ([3, 1, 1], [1, 3, 5, 7])" by code_simp
  show ?thesis using histogram_counts_spec [OF h, of 1] h by simp
qed

lemma hist_bins_bounds_witness:
  "[1, 2, 2, 3, 7 :: real] \<noteq> [] \<and> bins default_args = None \<and>
   1 \<le> length [1 / 5, 2 / 5, 1 / 5, 0, 0, 1 / 5 :: real] \<and> length [1 / 5, 2 / 5, 1 / 5, 0, 0, 1 / 5 :: real] \<le> 50"
  using hist_bins_bounds [OF _ _ hist_part_example] by (simp add: default_args_def)

lemma hist_part_default_errors_witness:
  "bins default_args = None \<and> hist_part [5] default_args = Inl TypeError"
  using hist_part_default_errors [of default_args "[5]" TypeError] by (simp add: default_args_def)

lemma distributions_default_both_witness:
  "2 \<le> length [1, 2 :: real] \<and>
   (\<exists>cs e g y. distributions [1, 2] default_args = Inr (BothOut (cs, e) (g, y)) \<and> length g = 100)"
  using distributions_default_both [of "[1, 2]"] by auto

lemma distributions_constant_error_witness:
  "kde default_args \<and> bins default_args = None \<and> 2 \<le> length [4, 4 :: real] \<and>
   distributions [4, 4] default_args = Inl LinAlgError"
  using distributions_constant_error [of default_args "[4, 4]"] by (simp add: default_args_def)

lemma kde_part_errors_witness:
  "kde_part [4] default_args = Inl ValueError \<and> length [4 :: real] \<le> 1"
proof -
  have k: "kde_part [4] default_args = Inl ValueError"
    by (simp add: kde_part_def kde_fit_def gaussian_kde_def)
  from kde_part_errors [OF k] k show ?thesis by simp
qed

end
