(* ===== verification/Describe.thy ===== *)
theory Describe
  imports Scanner Distribution
begin

text \<open>
  Summary Statistics, \<open>describe\<close> of \<open>src/reportgen/analysis.py\<close> (lines 315--324):
  \<open>data[[c]].describe()\<close> for every column, joined side by side with
  \<open>pd.concat([result, ...], axis=1)\<close>. The per-column summaries follow pandas 1.x:
  numeric columns get count, mean, std, min, the three quartiles and max; categorical and
  object columns get count, unique, top and freq; datetime columns also first and last. A
  cell is a \<open>scalar option\<close>, \<open>None\<close> being NaN. The join is pandas' outer join on the
  statistic index with \<open>sort=False\<close>: labels keep the order in which they first appear.
\<close>

section \<open>Per-column summaries\<close>

text \<open>The row labels of \<open>describe\<close>: count, mean, std, min, 25%, 50%, 75%, max,
  unique, top, freq, first, last.\<close>

datatype stat = Count | Mean | Std | MinS | P25 | P50 | P75 | MaxS | Unique | Top | Freq | First | Last

type_synonym summary = "(stat \<times> scalar option) list"

text \<open>
  \<open>describe_numeric_1d\<close>: the quantiles are \<open>Series.quantile\<close> with linear interpolation,
  the same rule as \<open>np.percentile\<close>; every statistic but the count is NaN on an empty
  series, and the sample standard deviation is NaN below two values.
\<close>

definition num_summary :: "real series \<Rightarrow> summary" where
  "num_summary s =
     (let xs = dropna s;
          q = (\<lambda>p. if xs = [] then None else Some (SNum (percentile xs p)))
      in [(Count, Some (SNum (real (length xs)))),
          (Mean, if xs = [] then None else Some (SNum (mean xs))),
          (Std, map_option SNum (sample_std xs)),
          (MinS, if xs = [] then None else Some (SNum (Min (set xs)))),
          (P25, q 25), (P50, q 50), (P75, q 75),
          (MaxS, if xs = [] then None else Some (SNum (Max (set xs))))])"

text \<open>
  The most frequent value of \<open>value_counts()\<close> and its count. pandas sorts the counts in
  descending order and does not fix the order of ties; the model takes the tied value that
  appears first.
\<close>

definition top_freq :: "'a list \<Rightarrow> 'a \<times> nat" where
  "top_freq xs =
     (let u = remdups xs; f = fold max (map (count_list xs) u) 0
      in (hd (filter (\<lambda>v. count_list xs v = f) u), f))"

text \<open>\<open>describe_categorical_1d\<close>: count, unique, top and freq, the last two NaN when the
  series holds no value.\<close>

definition cat_summary :: "('a \<Rightarrow> scalar) \<Rightarrow> 'a list \<Rightarrow> summary" where
  "cat_summary f xs =
     [(Count, Some (SNum (real (length xs)))), (Unique, Some (SNum (real (length (remdups xs))))),
      (Top, if xs = [] then None else Some (f (fst (top_freq xs)))),
      (Freq, if xs = [] then None else Some (SNum (real (snd (top_freq xs)))))]"

text \<open>\<open>describe_timestamp_as_categorical_1d\<close>: first and last follow when there is a value.\<close>

definition dt_summary :: "int list \<Rightarrow> summary" where
  "dt_summary xs =
     cat_summary SDt xs @
     (if xs = [] then [] else [(First, Some (SDt (Min (set xs)))), (Last, Some (SDt (Max (set xs))))])"

text \<open>
  \<open>data[[c]].describe()\<close> by the dtype of the column. The dtypes the model leaves opaque
  (\<open>OtherCol\<close>) have no summary here.
\<close>

fun describe_col :: "column \<Rightarrow> summary option" where
  "describe_col (NumCol s) = Some (num_summary s)"
| "describe_col (ObjCol s) = Some (cat_summary SObj (dropna s))"
| "describe_col (DtCol s) = Some (dt_summary (dropna s))"
| "describe_col (CatCol cats ord s) = Some (cat_summary id (dropna s))"
| "describe_col OtherCol = None"

section \<open>Joining the summaries\<close>

text \<open>A data frame of summaries: the row index and, per column, its cells in index order.\<close>

record frame =
  findex :: "stat list"
  fcols :: "(string \<times> scalar option list) list"

definition empty_frame :: frame where
  "empty_frame = \<lparr>findex = [], fcols = []\<rparr>"

text \<open>The cell of a summary at a label: the statistic, or NaN when the summary lacks it.\<close>

definition cell_of :: "summary \<Rightarrow> stat \<Rightarrow> scalar option" where
  "cell_of sm st = (case map_of sm st of None \<Rightarrow> None | Some v \<Rightarrow> v)"

text \<open>
  \<open>pd.concat([result, col], axis=1)\<close>: the index grows by the new labels in order, the
  earlier columns get NaN on them, and the new column is aligned on the joined index.
\<close>

definition concat_col :: "frame \<Rightarrow> string \<times> summary \<Rightarrow> frame" where
  "concat_col fr cs =
     (let idx = findex fr @ filter (\<lambda>st. st \<notin> set (findex fr)) (remdups (map fst (snd cs)))
      in \<lparr>findex = idx,
          fcols = map (\<lambda>(c, vs). (c, vs @ replicate (length idx - length (findex fr)) None)) (fcols fr) @
                  [(fst cs, map (cell_of (snd cs)) idx)]\<rparr>)"

text \<open>Lines 319--322: the loop over the columns.\<close>

fun describe_loop :: "frame \<Rightarrow> table \<Rightarrow> frame option" where
  "describe_loop fr [] = Some fr"
| "describe_loop fr ((c, col) # tbl) =
     (case describe_col col of
        None \<Rightarrow> None
      | Some sm \<Rightarrow> describe_loop (concat_col fr (c, sm)) tbl)"

definition describe :: "table \<Rightarrow> frame option" where
  "describe tbl = describe_loop empty_frame tbl"

section \<open>Reference: the outer join of the summaries\<close>

text \<open>The summaries of all columns, when every column has one.\<close>

fun summaries :: "table \<Rightarrow> (string \<times> summary) list option" where
  "summaries [] = Some []"
| "summaries ((c, col) # tbl) =
     (case describe_col col of
        None \<Rightarrow> None
      | Some sm \<Rightarrow> map_option (Cons (c, sm)) (summaries tbl))"

text \<open>The joined index: every label of every summary, in order of first appearance.\<close>

definition add_labels :: "stat list \<Rightarrow> summary \<Rightarrow> stat list" where
  "add_labels idx sm = idx @ filter (\<lambda>st. st \<notin> set idx) (remdups (map fst sm))"

definition labels :: "summary list \<Rightarrow> stat list" where
  "labels sms = foldl add_labels [] sms"

text \<open>The outer join: each column is its summary read at every label of the joined index.\<close>

definition join_spec :: "(string \<times> summary) list \<Rightarrow> frame" where
  "join_spec cs =
     (let idx = labels (map snd cs) in \<lparr>findex = idx, fcols = map (\<lambda>(c, sm). (c, map (cell_of sm) idx)) cs\<rparr>)"

section \<open>Example table\<close>

definition desc_tbl :: table where
  "desc_tbl = [(''x'', NumCol [Some 1, None, Some 3, Some 5]),
               (''y'', ObjCol [Some (PStr ''a''), Some (PStr ''b''), Some (PStr ''a'')])]"


section \<open>Lemmas on the joined index\<close>

lemma set_add_labels: "set (add_labels idx sm) = set idx \<union> set (map fst sm)"
  by (auto simp: add_labels_def)

lemma distinct_add_labels: "distinct idx \<Longrightarrow> distinct (add_labels idx sm)"
  by (auto simp: add_labels_def)

lemma labels_snoc: "labels (sms @ [sm]) = add_labels (labels sms) sm"
  by (simp add: labels_def)

lemma set_labels: "set (labels sms) = (\<Union>sm\<in>set sms. set (map fst sm))"
  by (induction sms rule: rev_induct) (auto simp: labels_snoc set_add_labels, simp add: labels_def)

lemma distinct_labels: "distinct (labels sms)"
  by (induction sms rule: rev_induct) (simp_all add: labels_snoc distinct_add_labels, simp add: labels_def)

lemma cell_of_missing: "st \<notin> set (map fst sm) \<Longrightarrow> cell_of sm st = None"
proof -
  assume "st \<notin> set (map fst sm)"
  then have "map_of sm st = None" by (simp add: map_of_eq_None_iff)
  then show ?thesis by (simp add: cell_of_def)
qed

lemma concat_col_join:
  "concat_col (join_spec cs) (c, sm) = join_spec (cs @ [(c, sm)])"
proof -
  define idx where "idx = labels (map snd cs)"
  define new where "new = filter (\<lambda>st. st \<notin> set idx) (remdups (map fst sm))"
  have idx': "labels (map snd cs @ [sm]) = idx @ new"
    by (simp add: labels_snoc idx_def new_def add_labels_def)
  have old: "map (cell_of sm') idx @ replicate (length new) None = map (cell_of sm') (idx @ new)"
    if "(c', sm') \<in> set cs" for c' sm'
  proof -
    have "set (map fst sm') \<subseteq> set idx" using that by (force simp: idx_def set_labels)
    then have "\<forall>st\<in>set new. st \<notin> set (map fst sm')"
      unfolding new_def by auto
    then have "\<forall>st\<in>set new. cell_of sm' st = None"
      by (simp add: cell_of_missing)
    then have "map (cell_of sm') new = replicate (length new) None"
      by (induction new) auto
    then show ?thesis by simp
  qed
  have f: "findex (join_spec cs) = idx" by (simp add: join_spec_def idx_def Let_def)
  have cols: "fcols (join_spec cs) = map (\<lambda>(c, sm). (c, map (cell_of sm) idx)) cs"
    by (simp add: join_spec_def idx_def Let_def)
  have pad: "map (\<lambda>(c, vs). (c, vs @ replicate (length (idx @ new) - length idx) None))
               (map (\<lambda>(c, sm). (c, map (cell_of sm) idx)) cs) =
             map (\<lambda>(c, sm). (c, map (cell_of sm) (idx @ new))) cs"
    unfolding map_map
  proof (rule map_cong [OF refl])
    fix p assume p: "p \<in> set cs"
    obtain c' sm' where pc: "p = (c', sm')" by (cases p)
    show "((\<lambda>(c, vs). (c, vs @ replicate (length (idx @ new) - length idx) None)) \<circ>
            (\<lambda>(c, sm). (c, map (cell_of sm) idx))) p = (\<lambda>(c, sm). (c, map (cell_of sm) (idx @ new))) p"
      using old [of c' sm'] p by (simp add: pc)
  qed
  have "concat_col (join_spec cs) (c, sm) =
        \<lparr>findex = idx @ new, fcols = map (\<lambda>(c, sm). (c, map (cell_of sm) (idx @ new))) cs @
                                   [(c, map (cell_of sm) (idx @ new))]\<rparr>"
    unfolding concat_col_def f cols Let_def pad [symmetric] by (simp add: new_def)
  also have "\<dots> = join_spec (cs @ [(c, sm)])"
    by (simp add: join_spec_def idx' Let_def)
  finally show ?thesis .
qed

lemma empty_frame_join: "empty_frame = join_spec []"
  by (simp add: empty_frame_def join_spec_def labels_def)

lemma describe_loop_join:
  "describe_loop (join_spec cs0) tbl = map_option (\<lambda>cs. join_spec (cs0 @ cs)) (summaries tbl)"
proof (induction tbl arbitrary: cs0)
  case Nil
  then show ?case by simp
next
  case (Cons p tbl)
  obtain c col where p: "p = (c, col)" by (cases p)
  show ?case
  proof (cases "describe_col col")
    case (Some sm)
    have "describe_loop (join_spec cs0) ((c, col) # tbl) = describe_loop (join_spec (cs0 @ [(c, sm)])) tbl"
      using Some by (simp add: concat_col_join)
    also have "\<dots> = map_option (\<lambda>cs. join_spec (cs0 @ (c, sm) # cs)) (summaries tbl)"
      using Cons.IH [of "cs0 @ [(c, sm)]"] by (simp add: comp_def)
    finally show ?thesis using Some p by (simp add: option.map_comp comp_def)
  qed (simp add: p)
qed

lemma describe_eq: "describe tbl = map_option join_spec (summaries tbl)"
  using describe_loop_join [of "[]" tbl] by (simp add: describe_def empty_frame_join)

lemma summaries_names: "summaries tbl = Some cs \<Longrightarrow> map fst cs = map fst tbl"
  by (induction tbl arbitrary: cs rule: summaries.induct) (auto split: option.splits)

lemma fold_max_eq: "fold max xs (0::nat) = Max (insert 0 (set xs))"
  by (metis Max.set_eq_fold list.simps(15))

lemma mean_bounds:
  assumes "xs \<noteq> []"
  shows "Min (set xs) \<le> mean xs \<and> mean xs \<le> Max (set xs)"
proof -
  have n: "0 < real (length xs)" using assms by simp
  have "sum_list (map (\<lambda>_. Min (set xs)) xs) \<le> sum_list (map (\<lambda>x. x) xs)"
    by (rule sum_list_mono) simp
  then have lo: "real (length xs) * Min (set xs) \<le> sum_list xs" by (simp add: sum_list_triv)
  have "sum_list (map (\<lambda>x. x) xs) \<le> sum_list (map (\<lambda>_. Max (set xs)) xs)"
    by (rule sum_list_mono) simp
  then have hi: "sum_list xs \<le> real (length xs) * Max (set xs)" by (simp add: sum_list_triv)
  show ?thesis
    using lo hi n by (simp add: mean_def pos_le_divide_eq pos_divide_le_eq mult.commute)
qed

lemma summaries_cols:
  "summaries tbl = Some cs \<Longrightarrow> (c, sm) \<in> set cs \<Longrightarrow> \<exists>col. (c, col) \<in> set tbl \<and> describe_col col = Some sm"
  by (induction tbl arbitrary: cs rule: summaries.induct) (fastforce split: option.splits)+

lemma summaries_Nil: "summaries tbl = Some cs \<Longrightarrow> (cs = []) = (tbl = [])"
  by (induction tbl arbitrary: cs rule: summaries.induct) (auto split: option.splits)

lemma labels_same:
  assumes "sms \<noteq> []" and "\<forall>sm\<in>set sms. map fst sm = L" and "distinct L"
  shows "labels sms = L"
  using assms
proof (induction sms rule: rev_induct)
  case (snoc sm sms)
  show ?case
  proof (cases "sms = []")
    case True
    then show ?thesis using snoc.prems by (simp add: labels_def add_labels_def distinct_remdups_id)
  next
    case False
    then have "labels sms = L" using snoc by simp
    then show ?thesis using snoc.prems by (simp add: labels_snoc add_labels_def)
  qed
qed simp

section \<open>Properties\<close>

text \<open>
  C9: \<open>describe\<close> is the outer join of the per-column summaries: the loop of \<open>pd.concat(axis=1)\<close> calls yields the frame whose index lists every statistic label in order of first appearance and whose column for each table column is its summary read at every label, NaN where the summary lacks the label; it returns nothing exactly when a column has a dtype the model leaves opaque.
\<close>

theorem describe_join: "describe tbl = map_option join_spec (summaries tbl)"
  using describe_loop_join [of "[]" tbl] by (simp add: describe_def empty_frame_join)

text \<open>
  C10: the frame \<open>describe\<close> returns keeps the table's columns in order, has no repeated statistic label, and gives every column one cell per label.
\<close>

theorem describe_frame_wf:
  assumes "describe tbl = Some fr"
  shows "map fst (fcols fr) = map fst tbl \<and> distinct (findex fr) \<and>
         (\<forall>cv\<in>set (fcols fr). length (snd cv) = length (findex fr))"
proof -
  obtain cs where cs: "summaries tbl = Some cs" and fr: "fr = join_spec cs"
    using assms by (auto simp: describe_eq)
  show ?thesis
    using summaries_names [OF cs] distinct_labels
    by (auto simp: fr join_spec_def Let_def comp_def case_prod_beta)
qed

text \<open>
  On a numeric column with a value the summary's min, quartiles and max are in increasing order and the mean lies between min and max.
\<close>

theorem num_summary_ordered:
  assumes "dropna s \<noteq> []"
  shows "\<exists>lo q1 q2 q3 hi m.
           map (cell_of (num_summary s)) [MinS, P25, P50, P75, MaxS, Mean] =
           map (\<lambda>v. Some (SNum v)) [lo, q1, q2, q3, hi, m] \<and>
           lo \<le> q1 \<and> q1 \<le> q2 \<and> q2 \<le> q3 \<and> q3 \<le> hi \<and> lo \<le> m \<and> m \<le> hi"
proof -
  define xs where "xs = dropna s"
  have ne: "xs \<noteq> []" using assms by (simp add: xs_def)
  have cells: "map (cell_of (num_summary s)) [MinS, P25, P50, P75, MaxS, Mean] =
      map (\<lambda>v. Some (SNum v)) [Min (set xs), percentile xs 25, percentile xs 50, percentile xs 75,
                               Max (set xs), mean xs]"
    using ne by (simp add: num_summary_def cell_of_def Let_def xs_def [symmetric])
  have "Min (set xs) \<le> percentile xs 25" using percentile_bounds [OF ne, of 25] by simp
  moreover have "percentile xs 25 \<le> percentile xs 50" by (rule percentile_mono [OF ne]) simp_all
  moreover have "percentile xs 50 \<le> percentile xs 75" by (rule percentile_mono [OF ne]) simp_all
  moreover have "percentile xs 75 \<le> Max (set xs)" using percentile_bounds [OF ne, of 75] by simp
  ultimately show ?thesis using cells mean_bounds [OF ne] by blast
qed

text \<open>
  The \<open>top\<close> of a non-empty categorical summary is a value of the column and \<open>freq\<close> is its count, the largest count of any value.
\<close>

theorem top_freq_spec:
  assumes "xs \<noteq> []" and "top_freq xs = (t, f)"
  shows "t \<in> set xs \<and> count_list xs t = f \<and> (\<forall>v. count_list xs v \<le> f)"
proof -
  define L where "L = map (count_list xs) (remdups xs)"
  have f: "f = Max (insert 0 (set L))"
    using assms(2) by (simp add: top_freq_def Let_def L_def fold_max_eq)
  have le: "count_list xs v \<le> f" for v
  proof (cases "v \<in> set xs")
    case True
    then have "count_list xs v \<in> set L" by (simp add: L_def)
    then show ?thesis by (simp add: f)
  qed (simp add: count_list_0_iff)
  have "hd xs \<in> set xs" using assms(1) by simp
  then have pos: "0 < count_list xs (hd xs)" by (metis count_list_0_iff gr0I)
  have "f \<in> insert 0 (set L)" unfolding f by (rule Max_in) simp_all
  moreover have "f \<noteq> 0" using le [of "hd xs"] pos by simp
  ultimately have "f \<in> set L" by simp
  then obtain v where v: "v \<in> set xs" "count_list xs v = f" by (auto simp: L_def)
  then have ne: "filter (\<lambda>v. count_list xs v = f) (remdups xs) \<noteq> []" by (auto simp: filter_empty_conv)
  have t: "t = hd (filter (\<lambda>v. count_list xs v = f) (remdups xs))"
    using assms(2) by (simp add: top_freq_def Let_def L_def fold_max_eq f)
  have "t \<in> set (filter (\<lambda>v. count_list xs v = f) (remdups xs))" unfolding t by (rule hd_in_set [OF ne])
  then show ?thesis using le by simp
qed

text \<open>
  A non-empty table of numeric columns is described by exactly the rows count, mean, std, min, 25%, 50%, 75%, max.
\<close>

theorem describe_numeric_index:
  assumes "tbl \<noteq> []" and "\<forall>p\<in>set tbl. \<exists>s. snd p = NumCol s" and "describe tbl = Some fr"
  shows "findex fr = [Count, Mean, Std, MinS, P25, P50, P75, MaxS]"
proof -
  obtain cs where cs: "summaries tbl = Some cs" and fr: "fr = join_spec cs"
    using assms(3) by (auto simp: describe_eq)
  have "\<forall>sm\<in>set (map snd cs). map fst sm = [Count, Mean, Std, MinS, P25, P50, P75, MaxS]"
  proof
    fix sm assume "sm \<in> set (map snd cs)"
    then obtain c where "(c, sm) \<in> set cs" by auto
    from summaries_cols [OF cs this] obtain col where "(c, col) \<in> set tbl" "describe_col col = Some sm" by blast
    with assms(2) show "map fst sm = [Count, Mean, Std, MinS, P25, P50, P75, MaxS]"
      by (force simp: num_summary_def Let_def)
  qed
  moreover have "map snd cs \<noteq> []" using summaries_Nil [OF cs] assms(1) by simp
  ultimately show ?thesis by (simp add: fr join_spec_def Let_def labels_same)
qed

text \<open>
  An all-missing numeric column is summarised with count 0 and NaN in every other row.
\<close>

theorem num_summary_all_missing:
  assumes "dropna s = []"
  shows "map (cell_of (num_summary s)) [Count, Mean, Std, MinS, P25, P50, P75, MaxS] =
         [Some (SNum 0), None, None, None, None, None, None, None]"
  using assms by (simp add: num_summary_def cell_of_def Let_def sample_std_def sample_var_def)

section \<open>Witnesses\<close>

lemma num_summary_example:
  "num_summary [Some 1, None, Some 3, Some 5] =
     [(Count, Some (SNum 3)), (Mean, Some (SNum 3)), (Std, Some (SNum 2)), (MinS, Some (SNum 1)),
      (P25, Some (SNum 2)), (P50, Some (SNum 3)), (P75, Some (SNum 4)), (MaxS, Some (SNum 5))]"
  by (simp add: num_summary_def sample_std_def sample_var_def mean_def percentile_def lerp_at_def Let_def)

lemma describe_example:
  "describe desc_tbl = Some
     \<lparr>findex = [Count, Mean, Std, MinS, P25, P50, P75, MaxS, Unique, Top, Freq],
      fcols = [(''x'', map (\<lambda>v. Some (SNum v)) [3, 3, 2, 1, 2, 3, 4, 5] @ [None, None, None]),
               (''y'', [Some (SNum 3), None, None, None, None, None, None, None,
                       Some (SNum 2), Some (SObj (PStr ''a'')), Some (SNum 2)])]\<rparr>"
proof -
  have "summaries desc_tbl = Some [(''x'', num_summary [Some 1, None, Some 3, Some 5]),
     (''y'', cat_summary SObj [PStr ''a'', PStr ''b'', PStr ''a''])]"
    by (simp add: desc_tbl_def)
  moreover have "cat_summary SObj [PStr ''a'', PStr ''b'', PStr ''a''] =
     [(Count, Some (SNum 3)), (Unique, Some (SNum 2)), (Top, Some (SObj (PStr ''a''))), (Freq, Some (SNum 2))]"
    by (simp add: cat_summary_def top_freq_def)
  ultimately show ?thesis
    by (simp add: describe_eq num_summary_example join_spec_def labels_def add_labels_def cell_of_def)
qed


lemma describe_frame_wf_witness:
  "describe desc_tbl \<noteq> None \<and> map fst (fcols (the (describe desc_tbl))) = [''x'', ''y'']"
proof -
  have "map fst (fcols (the (describe desc_tbl))) = map fst desc_tbl"
    using describe_frame_wf [OF describe_example] describe_example by simp
  then show ?thesis using describe_example by (simp add: desc_tbl_def)
qed

lemma describe_numeric_index_witness:
  "describe [(''x'', NumCol [Some 1, None, Some 3, Some 5])] \<noteq> None \<and>
   findex (the (describe [(''x'', NumCol [Some 1, None, Some 3, Some 5])])) =
     [Count, Mean, Std, MinS, P25, P50, P75, MaxS]"
proof -
  have d: "describe [(''x'', NumCol [Some 1, None, Some 3, Some 5])] =
     Some (join_spec [(''x'', num_summary [Some 1, None, Some 3, Some 5])])"
    by (simp add: describe_eq)
  have "findex (join_spec [(''x'', num_summary [Some 1, None, Some 3, Some 5])]) =
        [Count, Mean, Std, MinS, P25, P50, P75, MaxS]"
    by (rule describe_numeric_index [OF _ _ d]) simp_all
  then show ?thesis using d by simp
qed

lemma top_freq_spec_witness:
  "top_freq [PStr ''a'', PStr ''b'', PStr ''a''] = (PStr ''a'', 2) \<and>
   count_list [PStr ''a'', PStr ''b'', PStr ''a''] (PStr ''a'') = 2"
proof -
  have t: "top_freq [PStr ''a'', PStr ''b'', PStr ''a''] = (PStr ''a'', 2)" by code_simp
  from top_freq_spec [OF _ t] t show ?thesis by simp
qed

lemma num_summary_ordered_witness:
  "dropna [Some 1, None, Some 3, Some (5 :: real)] \<noteq> [] \<and>
   (\<exists>lo q1 q2 q3 hi m. map (cell_of (num_summary [Some 1, None, Some 3, Some 5])) [MinS, P25, P50, P75, MaxS, Mean] =
      map (\<lambda>v. Some (SNum v)) [lo, q1, q2, q3, hi, m] \<and> lo \<le> q1 \<and> q3 \<le> hi)"
  using num_summary_ordered [of "[Some 1, None, Some 3, Some 5]"] by auto

lemma num_summary_all_missing_witness:
  "dropna [None, None :: real option] = [] \<and>
   cell_of (num_summary [None, None]) Mean = None"
  using num_summary_all_missing [of "[None, None]"] by simp

end
