(* ===== verification/Plot.thy ===== *)
theory Plot
  imports Prelude
begin

text \<open>
  The module configuration and the plotting function of \<open>src/reportgen/analysis.py\<close>:
  the font set-up run at import time (lines 32--38) and \<open>plot\<close> (lines 327--390). The
  drawing libraries are modelled by what the code asks of them: a matplotlib axes is a
  record of the artists added to it and of the settings made on it, \<open>plt.subplots()\<close> is a
  fresh axes, and \<open>ax.get_legend_handles_labels()\<close> returns the artists whose label does not
  start with an underscore. seaborn's \<open>kdeplot\<close> labels its curve with the name of the
  series it draws and returns at once on an empty series; \<open>distplot\<close> receives the values
  as an array and draws no labelled artist (seaborn 0.9/0.10, whose \<open>shade\<close> argument and
  \<open>distplot\<close> the code uses). The rendering itself (density estimates, pixels) and the
  failures of the drawing libraries are left abstract in the artists.
\<close>

section \<open>Module configuration (lines 32--38)\<close>

text \<open>
  \<open>config.font_path\<close> is \<open>None\<close> or a path; \<open>if font_path:\<close> takes the empty path as
  false.
\<close>

definition truthy_path :: "string option \<Rightarrow> bool" where
  "truthy_path fp = (case fp of None \<Rightarrow> False | Some p \<Rightarrow> p \<noteq> [])"

text \<open>
  The module globals the rest of the file reads: \<open>font_path\<close>; \<open>myfont\<close>, the
  \<open>FontProperties\<close> of the font file, bound only when the path is set (\<open>None\<close>: the
  name is unbound); and the font family handed to \<open>sns.set\<close> (\<open>None\<close>: seaborn's
  default).
\<close>

record module_state =
  font_path :: "string option"
  myfont :: "string option"
  sns_font :: "string option"

text \<open>
  Lines 35--38. \<open>FontProperties(fname=p).get_name()\<close> reads the family name out of the
  font file: the parameter \<open>get_name\<close>.
\<close>

definition module_init :: "(string \<Rightarrow> string) \<Rightarrow> string option \<Rightarrow> module_state" where
  "module_init get_name fp =
     (case fp of
        Some p \<Rightarrow>
          if p \<noteq> [] then \<lparr>font_path = fp, myfont = Some p, sns_font = Some (get_name p)\<rparr>
          else \<lparr>font_path = fp, myfont = None, sns_font = None\<rparr>
      | None \<Rightarrow> \<lparr>font_path = fp, myfont = None, sns_font = None\<rparr>)"

section \<open>Axes and charts\<close>

text \<open>
  The artists \<open>plot\<close> adds: a shaded density curve (\<open>sns.kdeplot(x, shade=True)\<close>,
  labelled with the series name), a histogram with its density (\<open>sns.distplot(x)\<close>),
  the two zero lines, a scatter of two columns (colour and label), and a text annotation
  of a row (its index label, its coordinates, colour and the font file of \<open>myfont\<close>).
\<close>

datatype artist =
    KdeCurve string "real list"
  | DistPlot "real list"
  | HLine real
  | VLine real
  | Scatter "real series" "real series" string string
  | Annotation nat "real option" "real option" string string

record axes =
  artists :: "artist list"
  legend_on :: bool
  axis_mode :: "string option"
  ticks_none :: bool

text \<open>\<open>fig, ax = plt.subplots()\<close>: an axes with nothing drawn on it.\<close>

definition new_axes :: axes where
  "new_axes = \<lparr>artists = [], legend_on = False, axis_mode = None, ticks_none = False\<rparr>"

fun artist_label :: "artist \<Rightarrow> string option" where
  "artist_label (KdeCurve l xs) = Some l"
| "artist_label (Scatter x y c l) = Some l"
| "artist_label a = None"

text \<open>
  \<open>ax.get_legend_handles_labels()\<close>: the labels of the artists that take part in a legend,
  those whose label is not empty and does not start with an underscore.
\<close>

definition legend_label :: "string \<Rightarrow> bool" where
  "legend_label l \<longleftrightarrow> l \<noteq> [] \<and> hd l \<noteq> CHR ''_''"

definition legend_labels :: "axes \<Rightarrow> string list" where
  "legend_labels ax = filter legend_label (List.map_filter artist_label (artists ax))"

text \<open>
  Lines 356--358 (and 363--365, 382--384): the tuple \<open>(handles, labels)\<close> always has two
  entries, so the test is whether there is a handle; then \<open>ax.legend()\<close>.
\<close>

definition legend_step :: "axes \<Rightarrow> axes" where
  "legend_step ax = (if legend_labels ax \<noteq> [] then ax\<lparr>legend_on := True\<rparr> else ax)"

definition add_artists :: "artist list \<Rightarrow> axes \<Rightarrow> axes" where
  "add_artists xs ax = ax\<lparr>artists := artists ax @ xs\<rparr>"

text \<open>
  The chart dictionary: \<open>chart['type']\<close>, whether \<open>chart['fig']\<close> is set, and
  \<open>chart['ax']\<close>. The figure holds the axes, so saving it renders \<open>ch_ax\<close>.
\<close>

record chart =
  ch_type :: string
  ch_fig :: bool
  ch_ax :: axes

type_synonym numframe = "(string \<times> real series) list"

text \<open>Lines 354--355: one \<open>sns.kdeplot(data[c].dropna(), shade=True, ax=ax)\<close> per column.\<close>

definition kde_curves :: "numframe \<Rightarrow> artist list" where
  "kde_curves data = map (\<lambda>(c, s). KdeCurve c (dropna s)) (filter (\<lambda>(c, s). dropna s \<noteq> []) data)"

section \<open>The scatter branch (lines 367--384)\<close>

definition scatter_colors :: "string list" where
  "scatter_colors = [''blue'', ''red'', ''green'', ''dark'']"

text \<open>
  Line 380, once per row: \<open>ax.annotate(row.name, (x, y), color=..., fontproperties=myfont)\<close>.
  Reading the unbound global \<open>myfont\<close> raises \<open>NameError\<close>. Rows are labelled by
  position (the frames the model builds carry pandas' default index).
\<close>

fun annotate_rows :: "module_state \<Rightarrow> string \<Rightarrow> (nat \<times> real option \<times> real option) list \<Rightarrow> axes \<Rightarrow> pyerr + axes" where
  "annotate_rows ms col [] ax = Inr ax"
| "annotate_rows ms col ((i, x, y) # rows) ax =
     (case myfont ms of
        None \<Rightarrow> Inl NameError
      | Some f \<Rightarrow> annotate_rows ms col rows (add_artists [Annotation i x y col f] ax))"

text \<open>
  Lines 376--380 for the \<open>i\<close>-th frame: \<open>dd.iloc[:,0]\<close> and \<open>dd.iloc[:,1]\<close> raise
  \<open>IndexError\<close> on a frame with fewer than two columns, and so does \<open>color[i]\<close> past the
  fourth frame. The guard \<open>'%s' % dd.iloc[:,0] != 'nan' or ...\<close> compares the printed
  table of a series (its rows, then its name and dtype) with \<open>'nan'\<close>: it always holds
  once the column exists.
\<close>

definition scatter_frame :: "module_state \<Rightarrow> nat \<Rightarrow> numframe \<Rightarrow> axes \<Rightarrow> pyerr + axes" where
  "scatter_frame ms i dd ax =
     (case dd of
        (c0, x) # (c1, y) # cs \<Rightarrow>
          if i < length scatter_colors
          then annotate_rows ms (scatter_colors ! i) (zip [0..<length x] (zip x y))
                 (add_artists [Scatter x y (scatter_colors ! i) c1] ax)
          else Inl IndexError
      | _ \<Rightarrow> Inl IndexError)"

text \<open>Line 375: \<open>for i, dd in enumerate(data)\<close>.\<close>

fun scatter_loop :: "module_state \<Rightarrow> (nat \<times> numframe) list \<Rightarrow> axes \<Rightarrow> pyerr + axes" where
  "scatter_loop ms [] ax = Inr ax"
| "scatter_loop ms ((i, dd) # dds) ax =
     (case scatter_frame ms i dd ax of Inl e \<Rightarrow> Inl e | Inr ax' \<Rightarrow> scatter_loop ms dds ax')"

text \<open>
  Lines 368--384. \<open>data\<close> is a data frame (line 347), never a list, so line 374 wraps it
  and the loop runs over the one frame.
\<close>

definition scatter_part :: "module_state \<Rightarrow> numframe \<Rightarrow> axes \<Rightarrow> pyerr + axes" where
  "scatter_part ms data ax =
     (let ax1 = add_artists [HLine 0, VLine 0] (ax\<lparr>ticks_none := True\<rparr>)
      in case scatter_loop ms (enumerate 0 [data]) ax1 of
           Inl e \<Rightarrow> Inl e
         | Inr ax2 \<Rightarrow> Inr (legend_step (ax2\<lparr>axis_mode := Some ''equal''\<rparr>)))"

section \<open>\<open>plot\<close> (lines 327--390)\<close>

text \<open>
  \<open>plot(data, figure_type, chart_type, vertical, ax)\<close> on a numeric data frame. For a
  figure type other than \<open>'mpl'\<close>/\<open>'matplotlib'\<close> the function falls off its end and
  returns \<open>None\<close>. Otherwise it draws on the given axes, or on a new figure's; a chart
  type it does not know draws nothing. \<open>chart['fig']\<close> is set only when the figure was
  created here: with a given axes, \<open>fig\<close> is unbound and the bare \<open>except\<close> of lines
  385--388 swallows the error. \<open>vertical\<close> is never read.
\<close>

definition plot ::
  "module_state \<Rightarrow> numframe \<Rightarrow> string \<Rightarrow> string \<Rightarrow> axes option \<Rightarrow> pyerr + chart option"
where
  "plot ms data figure_type chart_type ax0 =
     (if figure_type \<in> set [''mpl'', ''matplotlib''] then
        (let ax = (case ax0 of None \<Rightarrow> new_axes | Some a \<Rightarrow> a);
             mk = (\<lambda>a. Inr (Some \<lparr>ch_type = ''mpl'', ch_fig = (ax0 = None), ch_ax = a\<rparr>))
         in if chart_type \<in> set [''hist'', ''kde''] then
              mk ((legend_step (add_artists (kde_curves data) ax))
                    \<lparr>axis_mode := Some ''auto''\<rparr>)
            else if chart_type \<in> set [''dist''] then
              mk ((legend_step (add_artists (map (\<lambda>(c, s). DistPlot (dropna s)) data) ax))
                    \<lparr>axis_mode := Some ''auto''\<rparr>)
            else if chart_type \<in> set [''scatter''] then
              (case scatter_part ms data ax of Inl e \<Rightarrow> Inl e | Inr a \<Rightarrow> mk a)
            else mk ax)
      else Inr None)"

section \<open>Lemmas on \<open>plot\<close>\<close>

text \<open>A figure type other than matplotlib's gives no chart at all.\<close>

lemma plot_other_figure_type:
  "figure_type \<notin> {''mpl'', ''matplotlib''} \<Longrightarrow> plot ms data figure_type chart_type ax = Inr None"
  by (simp add: plot_def)

text \<open>The density and distribution charts on a new figure, as \<open>AnalysisReport\<close> asks for them.\<close>

lemma plot_fresh:
  "plot ms data ''mpl'' ''kde'' None =
     Inr (Some \<lparr>ch_type = ''mpl'', ch_fig = True,
                ch_ax = (legend_step (add_artists (kde_curves data) new_axes))\<lparr>axis_mode := Some ''auto''\<rparr>\<rparr>)"
  "plot ms data ''mpl'' ''dist'' None =
     Inr (Some \<lparr>ch_type = ''mpl'', ch_fig = True,
                ch_ax = (legend_step (add_artists (map (\<lambda>(c, s). DistPlot (dropna s)) data) new_axes))
                          \<lparr>axis_mode := Some ''auto''\<rparr>\<rparr>)"
  by (simp_all add: plot_def)

lemma annotate_rows_unbound:
  "myfont ms = None \<Longrightarrow> annotate_rows ms col rows ax = (if rows = [] then Inr ax else Inl NameError)"
  by (cases rows) auto

lemma annotate_rows_bound: "myfont ms = Some f \<Longrightarrow> annotate_rows ms col rows ax \<noteq> Inl e"
  by (induction rows arbitrary: ax) auto

lemma myfont_module_init: "myfont (module_init g fp) = None \<longleftrightarrow> \<not> truthy_path fp"
  by (simp add: module_init_def truthy_path_def split: option.splits)

section \<open>Properties\<close>

text \<open>
  C16: the scatter chart depends on the import-time font set-up: \<open>plot(data, 'mpl',
  'scatter')\<close> raises \<open>NameError\<close> exactly when \<open>config.font_path\<close> was unset or empty
  (so \<open>myfont\<close> was never bound) and the frame has two columns and a row to annotate.
\<close>

theorem plot_scatter_nameerror:
  "plot (module_init g fp) data ''mpl'' ''scatter'' ax = Inl NameError \<longleftrightarrow>
     \<not> truthy_path fp \<and> (\<exists>c0 x c1 y cs. data = (c0, x) # (c1, y) # cs \<and> zip x y \<noteq> [])"
proof -
  let ?ms = "module_init g fp"
  have "scatter_frame ?ms 0 data a = Inl NameError \<longleftrightarrow>
          myfont ?ms = None \<and> (\<exists>c0 x c1 y cs. data = (c0, x) # (c1, y) # cs \<and> zip x y \<noteq> [])" for a
  proof (cases "myfont ?ms")
    case None
    then show ?thesis
      by (auto simp: scatter_frame_def scatter_colors_def annotate_rows_unbound zip_eq_Nil_iff
               split: list.splits)
  next
    case (Some f)
    then show ?thesis
      by (auto simp: scatter_frame_def scatter_colors_def annotate_rows_bound split: list.splits)
  qed
  then show ?thesis
    by (auto simp: plot_def scatter_part_def myfont_module_init split: sum.splits)
qed

section \<open>Examples\<close>

lemma plot_scatter_example:
  "plot (module_init (\<lambda>p. ''SimHei'') None) [(''x'', [Some 1]), (''y'', [Some 2])] ''mpl'' ''scatter'' None = Inl NameError \<and>
   plot (module_init (\<lambda>p. ''SimHei'') (Some ''simhei.ttf'')) [(''x'', [Some 1]), (''y'', [Some 2])] ''mpl'' ''scatter'' None =
     Inr (Some \<lparr>ch_type = ''mpl'', ch_fig = True,
                ch_ax = \<lparr>artists = [HLine 0, VLine 0, Scatter [Some 1] [Some 2] ''blue'' ''y'',
                                     Annotation 0 (Some 1) (Some 2) ''blue'' ''simhei.ttf''],
                         legend_on = True, axis_mode = Some ''equal'', ticks_none = True\<rparr>\<rparr>)"
  by (simp add: plot_def scatter_part_def scatter_frame_def scatter_colors_def module_init_def
                new_axes_def add_artists_def legend_step_def legend_labels_def legend_label_def
                List.map_filter_def)

end
