(* ===== verification/Report.thy ===== *)
theory Report
  imports Plot Describe
begin

text \<open>
  Report assembly, \<open>AnalysisReport\<close> of \<open>src/reportgen/analysis.py\<close> (lines 394--495):
  classify the table (unless a variable list is given), open the slide deck, add the
  \<open>describe\<close> table, then one slide or none per variable by its vtype, and save the deck.
  The slide writer \<open>reportgen.report.Report\<close> is a collaborator outside \<open>src/\<close>; the model
  records the calls the code makes on it, in order, as the deck's history. The working
  directory is a store from paths to contents (\<open>savefig\<close>, \<open>img.save\<close> and
  \<open>p.save\<close> write a path, \<open>os.remove\<close> deletes one); printed lines are a log. A slide
  that shows a picture records what its path holds when the slide is added. The formatted
  texts (title, summary, footnote) are kept as the values the code formats into them.
\<close>

section \<open>What the code hands to the slide writer\<close>

text \<open>
  Titles: the fixed title of the field-description slide (line 421), \<open>name\<close> with the
  suffix "analysis" (lines 441, 453, 467, 488) and \<open>name\<close> with the suffix "word-cloud
  analysis" (line 477), written in Chinese in the source.
\<close>

datatype title = FieldDesc | Analysis string | CloudAnalysis string

text \<open>
  Summaries: the mean, standard deviation and maximum of a numeric variable (lines 437--438),
  or the value printed as the holder of the largest share and that share
  (\<open>'{}...: {:.2f}%'\<close>, lines 452, 466, 487). \<open>None\<close> prints as \<open>nan\<close>.
\<close>

datatype summary_txt = NumText "real option" "real option" "real option" | ShareText int "real option"

text \<open>A one-column table: the index labels with their values.\<close>

type_synonym ptable = "(scalar \<times> real option) list"

text \<open>
  The slide dictionaries \<open>{'data': ..., 'slide_type': ...}\<close> (with \<open>'type'\<close> for a
  chart), and the slide data, one dictionary or a list of them.
\<close>

datatype payload = PTable frame | PChart string ptable | PPicture string

datatype sdata = SOne payload | SMany "payload list"

datatype pic = Figure axes | Cloud string

text \<open>
  A file of the working directory holds a picture or a saved deck; the deck is the list of
  calls made on the \<open>Report\<close> object: \<open>add_cover(title)\<close>,
  \<open>add_slide(data, title, summary, footnote)\<close> (with the contents of its picture paths at
  that moment) and \<open>save(path)\<close>.
\<close>

datatype deck_call =
    AddCover string
  | AddSlide sdata title "summary_txt option" "nat option" "fcontent option list"
  | SaveDeck string
  and fcontent = Pic pic | Pptx "deck_call list"

text \<open>The lines \<open>AnalysisReport\<close> prints (lines 416, 457, 481, 491). Line 457 prints its message without \<open>format\<close>.\<close>

datatype logmsg = BadFilename | DatetimeSkip | CannotUnderstand string | MayBeId string

text \<open>
  The state a run of \<open>AnalysisReport\<close> changes: the calls on \<open>p\<close>, the working directory,
  the printed log, and the local list \<open>slides_data\<close>.
\<close>

record rstate =
  deck :: "deck_call list"
  files :: "string \<rightharpoonup> fcontent"
  printed :: "logmsg list"
  slides :: "sdata list"

text \<open>
  The collaborators the code calls and does not implement: \<open>time.strftime('_%Y%m%d%H%M',
  time.localtime())\<close>, and whether \<open>genwordcloud(text, font_path=...)\<close> followed by
  \<open>img.save\<close> succeeds.
\<close>

record env =
  stamp :: string
  wordcloud_ok :: "string \<Rightarrow> string option \<Rightarrow> bool"

section \<open>Paths and files\<close>

text \<open>\<open>str.rfind(c)\<close>: the last position of \<open>c\<close>, or \<open>-1\<close>.\<close>

definition rfind :: "char \<Rightarrow> string \<Rightarrow> int" where
  "rfind c p =
     (if c \<in> set p then int (length p - 1 - length (takeWhile (\<lambda>x. x \<noteq> c) (rev p))) else -1)"

text \<open>
  \<open>os.path.splitext\<close> on POSIX (\<open>genericpath._splitext\<close>): split at the last dot when it
  comes after the last slash and the file name before it is not made of dots only.
\<close>

definition splitext :: "string \<Rightarrow> string \<times> string" where
  "splitext p =
     (let si = rfind CHR ''/'' p; di = rfind CHR ''.'' p
      in if si < di \<and> \<not> list_all (\<lambda>ch. ch = CHR ''.'') (drop (nat (si + 1)) (take (nat di) p))
         then (take (nat di) p, drop (nat di) p)
         else (p, []))"

definition log_line :: "logmsg \<Rightarrow> rstate \<Rightarrow> rstate" where
  "log_line m st = st\<lparr>printed := printed st @ [m]\<rparr>"

text \<open>\<open>fig.savefig(path)\<close>, \<open>img.save(path)\<close>: the path now holds the content.\<close>

definition save_file :: "string \<Rightarrow> fcontent \<Rightarrow> rstate \<Rightarrow> rstate" where
  "save_file path c st = st\<lparr>files := (files st)(path \<mapsto> c)\<rparr>"

text \<open>\<open>os.remove(path)\<close>: \<open>FileNotFoundError\<close> when nothing is there.\<close>

definition remove_file :: "string \<Rightarrow> rstate \<Rightarrow> pyerr option \<times> rstate" where
  "remove_file path st =
     (if files st path = None then (Some FileNotFoundError, st)
      else (None, st\<lparr>files := (files st)(path := None)\<rparr>))"

fun pictures :: "sdata \<Rightarrow> string list" where
  "pictures (SOne (PPicture f)) = [f]"
| "pictures (SOne d) = []"
| "pictures (SMany ds) = List.map_filter (\<lambda>d. case d of PPicture f \<Rightarrow> Some f | _ \<Rightarrow> None) ds"

text \<open>\<open>p.add_slide(data=..., title=..., summary=..., footnote=...)\<close>.\<close>

definition add_slide :: "sdata \<Rightarrow> title \<Rightarrow> summary_txt option \<Rightarrow> nat option \<Rightarrow> rstate \<Rightarrow> rstate" where
  "add_slide d t sm fn st =
     st\<lparr>deck := deck st @ [AddSlide d t sm fn (map (files st) (pictures d))]\<rparr>"

text \<open>\<open>p.save(path)\<close>: the file holds the deck as it stands.\<close>

definition save_deck :: "string \<Rightarrow> rstate \<Rightarrow> rstate" where
  "save_deck path st =
     st\<lparr>deck := deck st @ [SaveDeck path], files := (files st)(path \<mapsto> Pptx (deck st))\<rparr>"

text \<open>Sequencing of steps that may raise; the state is kept as it was when the exception left.\<close>

definition then_do :: "pyerr option \<times> rstate \<Rightarrow> (rstate \<Rightarrow> pyerr option \<times> rstate) \<Rightarrow> pyerr option \<times> rstate" where
  "then_do r f = (case r of (None, st) \<Rightarrow> f st | (Some e, st) \<Rightarrow> (Some e, st))"

text \<open>\<open>slides_data.append(slide_data)\<close>.\<close>

definition append_slide :: "sdata \<Rightarrow> rstate \<Rightarrow> rstate" where
  "append_slide d st = st\<lparr>slides := slides st @ [d]\<rparr>"

section \<open>Tables of shares\<close>

text \<open>The cells of a column as scalars; the dtypes the model leaves opaque have none.\<close>

fun col_cells :: "column \<Rightarrow> scalar series option" where
  "col_cells (NumCol s) = Some (map (map_option SNum) s)"
| "col_cells (ObjCol s) = Some (map (map_option SObj) s)"
| "col_cells (DtCol s) = Some (map (map_option SDt) s)"
| "col_cells (CatCol cs b s) = Some s"
| "col_cells OtherCol = None"

text \<open>
  \<open>data[name].value_counts()\<close> (line 446) before its sort: every category of a
  categorical column, unused ones with count 0; the distinct values of any other column.
\<close>

fun col_value_counts :: "column \<Rightarrow> (scalar \<times> nat) list option" where
  "col_value_counts (CatCol cs b s) = Some (map (\<lambda>v. (v, count_list (dropna s) v)) cs)"
| "col_value_counts col = map_option value_counts (col_cells col)"

text \<open>
  The sort of \<open>value_counts\<close>: by count, largest first. pandas does not fix the order of
  equal counts; the model keeps them in the order they came.
\<close>

definition sort_counts :: "('a \<times> nat) list \<Rightarrow> ('a \<times> nat) list" where
  "sort_counts vc = sort_key (\<lambda>(v, c). - int c) vc"

text \<open>\<open>tmp * 100 / tmp.sum()\<close> (lines 447, 460): NaN everywhere when the counts sum to 0.\<close>

definition pct_table :: "('a \<times> nat) list \<Rightarrow> ('a \<times> real option) list" where
  "pct_table vc =
     (let t = sum_list (map snd vc)
      in map (\<lambda>(v, c). (v, if t = 0 then None else Some (real c * 100 / real t))) vc)"

text \<open>\<open>pd.DataFrame(tmp, index=v['categories'])\<close> (lines 449, 463): the rows in the given order, NaN for a label \<open>tmp\<close> lacks.\<close>

definition reindex_rows :: "ptable \<Rightarrow> scalar list \<Rightarrow> ptable" where
  "reindex_rows tb idx = map (\<lambda>k. (k, case map_of tb k of None \<Rightarrow> None | Some x \<Rightarrow> x)) idx"

text \<open>
  \<open>Series.argmax()\<close> of pandas 1.x: the position of the first largest value, NaN skipped;
  \<open>-1\<close> when every value is NaN; \<open>ValueError\<close> on an empty series.
\<close>

definition argmax_series :: "real series \<Rightarrow> pyerr + int" where
  "argmax_series s =
     (if s = [] then Inl ValueError
      else if dropna s = [] then Inr (- 1)
      else Inr (int (length (takeWhile (\<lambda>x. x \<noteq> Some (Max (set (dropna s)))) s))))"

text \<open>\<open>Series.max()\<close>: NaN when there is no value.\<close>

definition max_series :: "real series \<Rightarrow> real option" where
  "max_series s = (if dropna s = [] then None else Some (Max (set (dropna s))))"

text \<open>
  The tail the category, datetime and group branches share (lines 450--454, 464--468,
  485--489): the chart slide of the table, its summary from \<open>argmax\<close> and \<open>max\<close> of the
  column (which may raise before the slide is added), the slide, and its record in
  \<open>slides_data\<close>.
\<close>

definition share_slide :: "string \<Rightarrow> ptable \<Rightarrow> nat option \<Rightarrow> rstate \<Rightarrow> pyerr option \<times> rstate" where
  "share_slide nm tb fn st =
     (let d = SOne (PChart ''COLUMN_CLUSTERED'' tb)
      in case argmax_series (map snd tb) of
           Inl e \<Rightarrow> (Some e, st)
         | Inr i \<Rightarrow>
             (None, append_slide d (add_slide d (Analysis nm) (Some (ShareText i (max_series (map snd tb)))) fn st)))"

section \<open>One variable (lines 423--493)\<close>

text \<open>
  Lines 429--436: \<open>chart['fig'].savefig(path)\<close> on the chart \<open>plot\<close> returned:
  \<open>TypeError\<close> if it returned \<open>None\<close>, \<open>KeyError\<close> if the chart has no figure.
  \<open>clf()\<close> and \<open>del chart\<close> change nothing the model tracks.
\<close>

definition fig_to_file :: "string \<Rightarrow> pyerr + chart option \<Rightarrow> rstate \<Rightarrow> pyerr option \<times> rstate" where
  "fig_to_file path r st =
     (case r of
        Inl e \<Rightarrow> (Some e, st)
      | Inr None \<Rightarrow> (Some TypeError, st)
      | Inr (Some ch) \<Rightarrow>
          if ch_fig ch then (None, save_file path (Pic (Figure (ch_ax ch))) st) else (Some KeyError, st))"

text \<open>Lines 437--438: \<open>mean()\<close>, \<open>std()\<close> and \<open>max()\<close> of the column, NaN skipped.\<close>

definition num_text :: "real list \<Rightarrow> summary_txt" where
  "num_text xs =
     NumText (if xs = [] then None else Some (mean xs)) (sample_std xs)
       (if xs = [] then None else Some (Max (set xs)))"

text \<open>
  Lines 428--444, a \<open>number\<close> variable: the density and the distribution plot of the column
  saved to \<open>kdeplot1.png\<close> and \<open>kdeplot2.png\<close>, the slide showing both, then both files
  removed. The model covers numeric columns (\<open>None\<close> otherwise).
\<close>

definition number_var :: "module_state \<Rightarrow> string \<Rightarrow> column \<Rightarrow> rstate \<Rightarrow> (pyerr option \<times> rstate) option" where
  "number_var ms nm col st =
     (case col of
        NumCol s \<Rightarrow>
          (let d = SMany [PPicture ''kdeplot1.png'', PPicture ''kdeplot2.png'']
           in Some
                (then_do (fig_to_file ''kdeplot1.png'' (plot ms [(nm, s)] ''mpl'' ''kde'' None) st) (\<lambda>st1.
                 then_do (fig_to_file ''kdeplot2.png'' (plot ms [(nm, s)] ''mpl'' ''dist'' None) st1) (\<lambda>st2.
                 then_do (remove_file ''kdeplot1.png''
                            (append_slide d (add_slide d (Analysis nm) (Some (num_text (dropna s)))
                                               (Some (count s)) st2))) (\<lambda>st3.
                 remove_file ''kdeplot2.png'' st3)))))
      | _ \<Rightarrow> None)"

text \<open>Lines 445--454, a \<open>category\<close> variable: the shares of the values, largest first, or in category order when the variable is ordered.\<close>

definition category_var :: "result \<Rightarrow> column \<Rightarrow> rstate \<Rightarrow> (pyerr option \<times> rstate) option" where
  "category_var v col st =
     (case (col_value_counts col, col_cells col) of
        (Some vc, Some cells) \<Rightarrow>
          (let tb0 = pct_table (sort_counts vc);
               tb = (if ordered v then reindex_rows tb0 (categories v) else tb0)
           in Some (share_slide (name v) tb (Some (count cells)) st))
      | _ \<Rightarrow> None)"

text \<open>
  Lines 455--468, a \<open>datetime\<close> variable: skipped with a printed line when no timestamp
  repeats (the maximum of no counts is NaN, which is not 1); otherwise the shares of the
  timestamps in time order. The model covers datetime columns (\<open>None\<close> otherwise).
\<close>

definition datetime_var :: "result \<Rightarrow> column \<Rightarrow> rstate \<Rightarrow> (pyerr option \<times> rstate) option" where
  "datetime_var v col st =
     (case col of
        DtCol s \<Rightarrow>
          (let vc = value_counts s
           in if vc \<noteq> [] \<and> Max (set (map snd vc)) = 1 then Some (None, log_line DatetimeSkip st)
              else
                (let tb0 = map (\<lambda>(t, x). (SDt t, x)) (sort_key fst (pct_table vc));
                     tb = (if ordered v then reindex_rows tb0 (categories v) else tb0)
                 in Some (share_slide (name v) tb (Some (count s)) st)))
      | _ \<Rightarrow> None)"

text \<open>\<open>','.join(values)\<close> (line 471): \<open>TypeError\<close> unless every value is a string.\<close>

fun str_cell :: "scalar \<Rightarrow> string option" where
  "str_cell (SObj (PStr x)) = Some x"
| "str_cell x = None"

fun join_with :: "string \<Rightarrow> string list \<Rightarrow> string" where
  "join_with sep [] = []"
| "join_with sep [x] = x"
| "join_with sep (x # y # ys) = x @ sep @ join_with sep (y # ys)"

definition join_strs :: "scalar list \<Rightarrow> pyerr + string" where
  "join_strs xs = (case those (map str_cell xs) of None \<Rightarrow> Inl TypeError | Some ss \<Rightarrow> Inr (join_with '','' ss))"

text \<open>
  Lines 469--482, a \<open>text\<close> variable: the word cloud of the joined values, when they make
  more than one character, saved to \<open>tmp.png\<close>, shown, and removed. Every exception in
  the block (a missing column, a non-string value, the word-cloud generator) is caught by
  the bare \<open>except\<close> and printed.
\<close>

definition text_var :: "env \<Rightarrow> module_state \<Rightarrow> table \<Rightarrow> string \<Rightarrow> rstate \<Rightarrow> (pyerr option \<times> rstate) option" where
  "text_var E ms data nm st =
     (case map_of data nm of
        None \<Rightarrow> Some (None, log_line (CannotUnderstand nm) st)
      | Some col \<Rightarrow>
          (case col_cells col of
             None \<Rightarrow> None
           | Some cells \<Rightarrow>
               (case join_strs (dropna cells) of
                  Inl e \<Rightarrow> Some (None, log_line (CannotUnderstand nm) st)
                | Inr t \<Rightarrow>
                    if 1 < length t then
                      (if wordcloud_ok E t (font_path ms) then
                         (let d = SOne (PPicture ''tmp.png'');
                              st1 = append_slide d (add_slide d (CloudAnalysis nm) None (Some (count cells))
                                      (save_file ''tmp.png'' (Pic (Cloud t)) st))
                          in case remove_file ''tmp.png'' st1 of
                               (None, st2) \<Rightarrow> Some (None, st2)
                             | (Some e, st2) \<Rightarrow> Some (None, log_line (CannotUnderstand nm) st2))
                       else Some (None, log_line (CannotUnderstand nm) st))
                    else Some (None, st))))"

fun num_cells :: "column \<Rightarrow> real series option" where
  "num_cells (NumCol s) = Some s"
| "num_cells c = None"

text \<open>
  Lines 483--489, a \<open>group_number\<close> variable: the means of its columns
  (\<open>data.loc[:, vlist]\<close> raises \<open>KeyError\<close> when a column is missing), the largest
  column count as footnote (NaN, \<open>None\<close>, for no column). The model covers numeric columns.
\<close>

definition group_var :: "table \<Rightarrow> string \<Rightarrow> string list \<Rightarrow> rstate \<Rightarrow> (pyerr option \<times> rstate) option" where
  "group_var data nm vl st =
     (case those (map (map_of data) vl) of
        None \<Rightarrow> Some (Some KeyError, st)
      | Some cols \<Rightarrow>
          (case those (map num_cells cols) of
             None \<Rightarrow> None
           | Some ss \<Rightarrow>
               (let tb = map (\<lambda>(c, s). (SObj (PStr c), if dropna s = [] then None else Some (mean (dropna s))))
                           (zip vl ss);
                    fn = (if ss = [] then None else Some (Max (set (map count ss))))
                in Some (share_slide nm tb fn st))))"

definition with_column :: "table \<Rightarrow> string \<Rightarrow> rstate \<Rightarrow> (column \<Rightarrow> (pyerr option \<times> rstate) option) \<Rightarrow> (pyerr option \<times> rstate) option" where
  "with_column data nm st f = (case map_of data nm of None \<Rightarrow> Some (Some KeyError, st) | Some col \<Rightarrow> f col)"

text \<open>
  Lines 424--493: \<open>v['vlist']\<close> is read first (\<open>KeyError\<close> when absent), then the
  branch of the vtype. \<open>text_st\<close> prints a line; the \<open>else\<close> branch is unreachable,
  every vtype having a branch.
\<close>

definition report_var :: "env \<Rightarrow> module_state \<Rightarrow> table \<Rightarrow> result \<Rightarrow> rstate \<Rightarrow> (pyerr option \<times> rstate) option" where
  "report_var E ms data v st =
     (case vlist v of
        None \<Rightarrow> Some (Some KeyError, st)
      | Some vl \<Rightarrow>
          (case vtype v of
             Number \<Rightarrow> with_column data (name v) st (\<lambda>col. number_var ms (name v) col st)
           | Category \<Rightarrow> with_column data (name v) st (\<lambda>col. category_var v col st)
           | Datetime \<Rightarrow> with_column data (name v) st (\<lambda>col. datetime_var v col st)
           | Text \<Rightarrow> text_var E ms data (name v) st
           | Group_number \<Rightarrow> group_var data (name v) vl st
           | Text_st \<Rightarrow> Some (None, log_line (MayBeId (name v)) st)))"

text \<open>Line 423: the loop over the variables; an exception ends it.\<close>

fun report_loop :: "env \<Rightarrow> module_state \<Rightarrow> table \<Rightarrow> result list \<Rightarrow> rstate \<Rightarrow> (pyerr option \<times> rstate) option" where
  "report_loop E ms data [] st = Some (None, st)"
| "report_loop E ms data (v # vs) st =
     (case report_var E ms data v st of
        None \<Rightarrow> None
      | Some (Some e, st') \<Rightarrow> Some (Some e, st')
      | Some (None, st') \<Rightarrow> report_loop E ms data vs st')"

section \<open>\<open>AnalysisReport\<close> (lines 394--495)\<close>

text \<open>The \<open>filename\<close> argument: \<open>None\<close>, a string, a \<open>Report\<close> (its calls so far), or anything else.\<close>

datatype fname_arg = FNone | FStr string | FReport "deck_call list" | FOther

text \<open>The calls a \<open>Report\<close> passed as \<open>filename\<close> had received before the call.\<close>

fun given_deck :: "fname_arg \<Rightarrow> deck_call list" where
  "given_deck (FReport d) = d"
| "given_deck f = []"

text \<open>
  Lines 405--417: the file name and the deck. A new \<open>Report\<close> gets a cover titled with the
  name without its extension; a given \<open>Report\<close> is used as it is and the file name is the
  time-stamped default; anything else prints a line and returns \<open>None\<close>.
\<close>

fun open_report :: "env \<Rightarrow> fname_arg \<Rightarrow> (string \<times> deck_call list) option" where
  "open_report E FNone =
     (let f = ''AnalysisReport'' @ stamp E in Some (f, [AddCover (fst (splitext f))]))"
| "open_report E (FStr f) = Some (f, [AddCover (fst (splitext f))])"
| "open_report E (FReport d) = Some (''AnalysisReport'' @ stamp E, d)"
| "open_report E FOther = None"

text \<open>
  The whole function on the working directory \<open>fs\<close>. \<open>None\<close>: the call does not return
  (\<open>var_detection\<close> loops) or meets a case the model does not cover. Otherwise the value
  it returns (\<open>Inr None\<close> is Python's \<open>None\<close>) or the exception it raises, with the state
  it leaves.
\<close>

definition AnalysisReport ::
  "env \<Rightarrow> module_state \<Rightarrow> parsers \<Rightarrow> table \<Rightarrow> fname_arg \<Rightarrow> result list option \<Rightarrow> (string \<rightharpoonup> fcontent)
   \<Rightarrow> ((pyerr + sdata list option) \<times> rstate) option"
where
  "AnalysisReport E ms P tbl filename var_list fs =
     (let st0 = \<lparr>deck = given_deck filename, files = fs, printed = [], slides = []\<rparr>
      in case (case var_list of None \<Rightarrow> var_detection P True tbl | Some vs \<Rightarrow> Some (Inr (vs, tbl))) of
           None \<Rightarrow> None
         | Some (Inl e) \<Rightarrow> Some (Inl e, st0)
         | Some (Inr (vars, data)) \<Rightarrow>
             (case open_report E filename of
                None \<Rightarrow> Some (Inr None, log_line BadFilename st0)
              | Some (f, d) \<Rightarrow>
                  (case describe data of
                     None \<Rightarrow> None
                   | Some fr \<Rightarrow>
                       (case report_loop E ms data vars
                               (add_slide (SOne (PTable fr)) FieldDesc None None (st0\<lparr>deck := d\<rparr>)) of
                          None \<Rightarrow> None
                        | Some (Some e, st) \<Rightarrow> Some (Inl e, st)
                        | Some (None, st) \<Rightarrow>
                            Some (Inr (Some (slides st)), save_deck (fst (splitext f) @ ''.pptx'') st)))))"

section \<open>What a run leaves behind\<close>

text \<open>The scratch files the loop writes and removes.\<close>

definition temp_files :: "string set" where
  "temp_files = {''kdeplot1.png'', ''kdeplot2.png'', ''tmp.png''}"

text \<open>Every path holds what it held, except a scratch path, which may have been emptied.\<close>

definition files_kept :: "(string \<rightharpoonup> fcontent) \<Rightarrow> (string \<rightharpoonup> fcontent) \<Rightarrow> bool" where
  "files_kept fs fs' \<longleftrightarrow> (\<forall>p. fs' p = fs p \<or> (p \<in> temp_files \<and> fs' p = None))"

text \<open>A slide call found a content at each of its picture paths.\<close>

fun snap_ok :: "deck_call \<Rightarrow> bool" where
  "snap_ok (AddSlide d t sm fn imgs) = (None \<notin> set imgs)"
| "snap_ok c = True"

fun slide_of :: "deck_call \<Rightarrow> sdata option" where
  "slide_of (AddSlide d t sm fn imgs) = Some d"
| "slide_of c = None"

text \<open>
  A stretch of the loop from \<open>st\<close> to \<open>st'\<close>: files kept, calls only appended to the deck,
  each slide finding its pictures, and \<open>slides_data\<close> growing by the data of the slides added.
\<close>

definition run_ok :: "rstate \<Rightarrow> rstate \<Rightarrow> bool" where
  "run_ok st st' \<longleftrightarrow>
     files_kept (files st) (files st') \<and>
     (\<exists>calls. deck st' = deck st @ calls \<and> list_all snap_ok calls \<and>
              slides st' = slides st @ List.map_filter slide_of calls)"

text \<open>The path the deck is saved to.\<close>

definition report_path :: "env \<Rightarrow> fname_arg \<Rightarrow> string" where
  "report_path E fn = (case open_report E fn of Some (f, d) \<Rightarrow> fst (splitext f) @ ''.pptx'' | None \<Rightarrow> [])"

text \<open>\<open>os.path.basename\<close>: what follows the last slash.\<close>

definition basename :: "string \<Rightarrow> string" where
  "basename p = drop (nat (rfind CHR ''/'' p + 1)) p"

section \<open>Witness inputs\<close>

text \<open>
  A run on two columns, a numeric \<open>x\<close> and an object column \<open>city\<close>, with the
  variable list given, a word-cloud generator that succeeds, a configured font, and a working
  directory holding a user's \<open>kdeplot1.png\<close> and \<open>data.csv\<close>.
\<close>

definition rep_env :: env where
  "rep_env = \<lparr>stamp = ''_202611091200'', wordcloud_ok = (\<lambda>t f. True)\<rparr>"

definition rep_ms :: module_state where
  "rep_ms = module_init (\<lambda>p. ''SimHei'') (Some ''simhei.ttf'')"

definition rep_tbl :: table where
  "rep_tbl = [(''x'', NumCol [Some 1, Some 3]),
              (''city'', ObjCol [Some (PStr ''a''), Some (PStr ''b''), Some (PStr ''a'')])]"

definition rep_city :: result where
  "rep_city = \<lparr>name = ''city'', vtype = Category, ordered = False, categories = [], vlist = Some [''city'']\<rparr>"

definition rep_vars :: "result list" where
  "rep_vars = [\<lparr>name = ''x'', vtype = Number, ordered = False, categories = [], vlist = Some [''x'']\<rparr>, rep_city]"

definition rep_fs :: "string \<rightharpoonup> fcontent" where
  "rep_fs = [''kdeplot1.png'' \<mapsto> Pic (Cloud ''mine''), ''data.csv'' \<mapsto> Pic (Cloud ''csv'')]"

definition rep_sds :: "sdata list" where
  "rep_sds = [SMany [PPicture ''kdeplot1.png'', PPicture ''kdeplot2.png''],
              SOne (PChart ''COLUMN_CLUSTERED'' (pct_table (sort_counts [(SObj (PStr ''a''), 2), (SObj (PStr ''b''), 1)])))]"

definition rep_st0 :: rstate where
  "rep_st0 = \<lparr>deck = [], files = Map.empty, printed = [], slides = []\<rparr>"

section \<open>Lemmas on the state operations\<close>

lemmas state_ops = log_line_def save_file_def add_slide_def append_slide_def save_deck_def

lemma then_do_simps [simp]:
  "then_do (None, st) f = f st" "then_do (Some e, st) f = (Some e, st)"
  by (simp_all add: then_do_def)

lemma map_filter_app: "List.map_filter f (xs @ ys) = List.map_filter f xs @ List.map_filter f ys"
  by (induction xs) (simp_all add: List.map_filter_simps split: option.splits)

lemma files_kept_refl [simp]: "files_kept fs fs"
  by (simp add: files_kept_def)

lemma files_kept_trans: "files_kept a b \<Longrightarrow> files_kept b c \<Longrightarrow> files_kept a c"
  unfolding files_kept_def by metis

lemma run_ok_refl [simp]: "run_ok st st"
  unfolding run_ok_def by (rule conjI, simp, rule exI [of _ "[]"], simp)

lemma run_ok_trans: "run_ok a b \<Longrightarrow> run_ok b c \<Longrightarrow> run_ok a c"
  unfolding run_ok_def
proof (elim conjE exE, intro conjI)
  fix c1 c2
  assume "files_kept (files a) (files b)" "files_kept (files b) (files c)"
  then show "files_kept (files a) (files c)" by (rule files_kept_trans)
next
  fix c1 c2
  assume "deck b = deck a @ c1" "list_all snap_ok c1" "slides b = slides a @ List.map_filter slide_of c1"
    "deck c = deck b @ c2" "list_all snap_ok c2" "slides c = slides b @ List.map_filter slide_of c2"
  then show "\<exists>calls. deck c = deck a @ calls \<and> list_all snap_ok calls \<and>
              slides c = slides a @ List.map_filter slide_of calls"
    by (intro exI [of _ "c1 @ c2"]) (simp add: map_filter_app)
qed

lemma run_ok_log [simp]: "run_ok st (log_line m st)"
  unfolding run_ok_def log_line_def by (rule conjI, simp, rule exI [of _ "[]"], simp)

lemma run_ok_slide:
  assumes "\<forall>f \<in> set (pictures d). files st f \<noteq> None"
  shows "run_ok st (append_slide d (add_slide d t sm fn st))"
  unfolding run_ok_def
  using assms by (intro conjI exI [of _ "[AddSlide d t sm fn (map (files st) (pictures d))]"])
     (auto simp: append_slide_def add_slide_def map_filter_simps)

lemma run_ok_share: "share_slide nm tb fn st = (r, st') \<Longrightarrow> run_ok st st'"
  by (auto simp: share_slide_def Let_def run_ok_slide split: sum.splits)

section \<open>Lemmas on the branches and the loop\<close>

text \<open>Every branch of the loop body keeps \<open>run_ok\<close>; so does the loop (induction on the variables).\<close>

lemma run_ok_number: "number_var ms nm col st = Some (r, st') \<Longrightarrow> run_ok st st'"
proof (cases col)
  case (NumCol s)
  assume "number_var ms nm col st = Some (r, st')"
  then have "st' = st\<lparr>deck := deck st @
              [AddSlide (SMany [PPicture ''kdeplot1.png'', PPicture ''kdeplot2.png'']) (Analysis nm)
                 (Some (num_text (dropna s))) (Some (count s))
                 [Some (Pic (Figure ((legend_step (add_artists (kde_curves [(nm, s)]) new_axes))
                                       \<lparr>axis_mode := Some ''auto''\<rparr>))),
                  Some (Pic (Figure ((legend_step (add_artists [DistPlot (dropna s)] new_axes))
                                       \<lparr>axis_mode := Some ''auto''\<rparr>)))]],
          slides := slides st @ [SMany [PPicture ''kdeplot1.png'', PPicture ''kdeplot2.png'']],
          files := (files st)(''kdeplot2.png'' := None, ''kdeplot1.png'' := None)\<rparr>"
    using NumCol
    by (simp add: number_var_def Let_def plot_fresh fig_to_file_def remove_file_def state_ops fun_upd_twist)
  then show ?thesis
    unfolding run_ok_def files_kept_def temp_files_def
    by (intro conjI allI exI [of _ "[last (deck st')]"]) auto
qed (simp_all add: number_var_def)

lemma run_ok_text:
  assumes "text_var E ms data nm st = Some (r, st')"
  shows "run_ok st st'"
proof -
  let ?d = "SOne (PPicture ''tmp.png'')"
  consider (log) m where "st' = log_line m st" | (same) "st' = st"
    | (cloud) t n where "st' = (append_slide ?d (add_slide ?d (CloudAnalysis nm) None (Some n)
                                  (save_file ''tmp.png'' (Pic (Cloud t)) st)))\<lparr>files := (files st)(''tmp.png'' := None)\<rparr>"
    using assms unfolding text_var_def
    by (auto simp: Let_def remove_file_def save_file_def add_slide_def append_slide_def
             split: option.splits sum.splits if_splits)
  then show ?thesis
  proof cases
    case cloud
    then show ?thesis
      unfolding run_ok_def files_kept_def temp_files_def
      by (intro conjI allI exI [of _ "[last (deck st')]"]) (auto simp: state_ops)
  qed simp_all
qed

lemma run_ok_var: "report_var E ms data v st = Some (r, st') \<Longrightarrow> run_ok st st'"
  unfolding report_var_def with_column_def category_var_def datetime_var_def group_var_def
  by (auto simp: Let_def split: option.splits vtype.splits column.splits prod.splits if_splits
           dest: run_ok_share run_ok_number run_ok_text)

lemma run_ok_loop: "report_loop E ms data vs st = Some (r, st') \<Longrightarrow> run_ok st st'"
proof (induction vs arbitrary: st)
  case (Cons v vs)
  then show ?case
    by (auto split: option.splits prod.splits dest: run_ok_var intro: run_ok_trans)
qed simp

lemma open_report_deck:
  "open_report E fn = Some (f, d) \<Longrightarrow> d = given_deck fn \<or> (\<exists>t. d = [AddCover t] \<and> given_deck fn = [])"
  by (cases fn) (auto simp: Let_def)

lemma open_report_path: "open_report E fn = Some (f, d) \<Longrightarrow> report_path E fn = fst (splitext f) @ ''.pptx''"
  by (simp add: report_path_def)

text \<open>
  The shapes of a run: an exception or a refusal before the deck is opened, or the loop over
  the variables run from the description slide, then the deck saved when nothing raised.
\<close>

lemma AnalysisReport_run:
  assumes "AnalysisReport E ms P tbl fn vl fs = Some (r, st)"
  defines "st0 \<equiv> \<lparr>deck = given_deck fn, files = fs, printed = [], slides = []\<rparr>"
  shows "st = st0 \<or> st = log_line BadFilename st0 \<or>
         (\<exists>f d fr st1. open_report E fn = Some (f, d) \<and>
            run_ok (add_slide (SOne (PTable fr)) FieldDesc None None (st0\<lparr>deck := d\<rparr>)) st1 \<and>
            (st = st1 \<or> (r = Inr (Some (slides st1)) \<and> st = save_deck (report_path E fn) st1)))"
  using assms(1) unfolding AnalysisReport_def st0_def[symmetric]
  by (auto simp: Let_def open_report_path split: option.splits sum.splits prod.splits
           dest!: run_ok_loop)

lemma run_from_table_deck:
  assumes run: "run_ok (add_slide (SOne (PTable fr)) FieldDesc None None st0) st1"
    and o: "open_report E fn = Some (f, d)" and d: "deck st0 = d"
  shows "\<exists>calls. deck st1 = given_deck fn @ calls \<and> list_all snap_ok calls"
proof -
  obtain calls where c: "deck st1 = d @ [AddSlide (SOne (PTable fr)) FieldDesc None None []] @ calls"
    "list_all snap_ok calls"
    using run d by (auto simp: run_ok_def add_slide_def)
  obtain pre where pre: "d = given_deck fn @ pre" "list_all snap_ok pre"
    using open_report_deck [OF o] by auto
  show ?thesis
    using c pre by (intro exI [of _ "pre @ [AddSlide (SOne (PTable fr)) FieldDesc None None []] @ calls"]) simp
qed

section \<open>Lemmas on the share tables and on paths\<close>

lemma dropna_map_Some: "dropna (map (\<lambda>x. Some (f x)) xs) = map f xs"
  by (induction xs) simp_all

lemma argmax_first:
  assumes "\<forall>y \<in> set (dropna xs). y \<le> x"
  shows "argmax_series (Some x # xs) = Inr 0 \<and> max_series (Some x # xs) = Some x"
proof -
  have "Max (set (dropna (Some x # xs))) = x"
    by (rule Max_eqI [OF finite_set]) (use assms in auto)
  then show ?thesis by (simp add: argmax_series_def max_series_def)
qed

lemma sum_list_insort_key:
  fixes g :: "'a \<Rightarrow> 'b::comm_monoid_add"
  shows "sum_list (map g (insort_key f x ys)) = g x + sum_list (map g ys)"
  by (induction ys) (auto simp: ac_simps)

lemma sum_list_sort_key:
  fixes g :: "'a \<Rightarrow> 'b::comm_monoid_add"
  shows "sum_list (map g (sort_key f xs)) = sum_list (map g xs)"
  by (induction xs) (simp_all add: sum_list_insort_key)

lemma sort_counts_head:
  assumes "vc \<noteq> []"
  obtains v0 c0 rest where "sort_counts vc = (v0, c0) # rest" and "\<forall>(v, c) \<in> set rest. c \<le> c0"
    and "c0 = Max (set (map snd vc))" and "sum_list (map snd (sort_counts vc)) = sum_list (map snd vc)"
proof -
  have sorted: "sorted (map (\<lambda>(v, c). - int c) (sort_counts vc))"
    unfolding sort_counts_def by (rule sorted_sort_key)
  have set: "set (sort_counts vc) = set vc"
    unfolding sort_counts_def by simp
  obtain v0 c0 rest where sc: "sort_counts vc = (v0, c0) # rest"
    using assms set by (cases "sort_counts vc") auto
  have le: "\<forall>(v, c) \<in> set rest. c \<le> c0"
    using sorted sc by auto
  have "c0 = Max (set (map snd vc))"
  proof -
    have A: "set (map snd vc) = insert c0 (snd ` set rest)"
    proof -
      have "set (map snd vc) = snd ` set (sort_counts vc)" using set by simp
      then show ?thesis using sc by simp
    qed
    show ?thesis
      unfolding A by (rule Max_eqI [symmetric]) (use le in auto)
  qed
  moreover have "sum_list (map snd (sort_counts vc)) = sum_list (map snd vc)"
    unfolding sort_counts_def by (rule sum_list_sort_key)
  ultimately show ?thesis using that sc le by blast
qed

lemma takeWhile_length_less: "\<exists>x \<in> set xs. \<not> P x \<Longrightarrow> length (takeWhile P xs) < length xs"
  by (induction xs) auto

lemma takeWhile_rev_lt: "c \<in> set s \<Longrightarrow> length (takeWhile (\<lambda>x. x \<noteq> c) (rev s)) < length s"
  using takeWhile_length_less [of "rev s" "\<lambda>x. x \<noteq> c"] by auto

lemma rfind_append_notin:
  assumes "c \<notin> set t"
  shows "rfind c (s @ t) = rfind c s"
proof -
  have "takeWhile (\<lambda>x. x \<noteq> c) (rev t @ rev s) = rev t @ takeWhile (\<lambda>x. x \<noteq> c) (rev s)"
    using assms by (intro takeWhile_append2) auto
  then show ?thesis
    using assms takeWhile_rev_lt [of c s] by (auto simp: rfind_def)
qed

lemma rfind_snoc:
  assumes "c \<notin> set t"
  shows "rfind c (s @ c # t) = int (length s)"
proof -
  have "takeWhile (\<lambda>x. x \<noteq> c) (rev t @ c # rev s) = rev t @ takeWhile (\<lambda>x. x \<noteq> c) (c # rev s)"
    by (rule takeWhile_append2) (use assms in auto)
  then show ?thesis by (simp add: rfind_def)
qed

lemma rfind_less: "rfind c s < int (length s)"
  using takeWhile_rev_lt [of c s] by (auto simp: rfind_def)

lemma splitext_append: "fst (splitext p) @ snd (splitext p) = p"
  by (simp add: splitext_def Let_def)

lemma rep_run:
  "\<exists>st. AnalysisReport rep_env rep_ms std_parsers rep_tbl (FStr ''out.pptx'') (Some rep_vars) rep_fs =
      Some (Inr (Some rep_sds), st)"
  by (simp add: AnalysisReport_def rep_tbl_def rep_vars_def rep_city_def rep_env_def rep_ms_def rep_sds_def
       report_var_def with_column_def number_var_def plot_fresh fig_to_file_def remove_file_def
       category_var_def describe_def value_counts_def share_slide_def argmax_series_def
       splitext_def rfind_def state_ops pct_table_def sort_counts_def Let_def)

section \<open>Properties\<close>

text \<open>
  C12: when \<open>AnalysisReport\<close> returns \<open>slides_data\<close>, the deck it used received, after its
  earlier calls (the cover of a new deck, or what a given \<open>Report\<close> had), the description
  table, then the calls of the loop, then \<open>save\<close> to the name without extension plus
  \<open>.pptx\<close>; that file holds the deck, and \<open>slides_data\<close> lists the data of exactly the
  slides the loop added, in order.
\<close>

theorem AnalysisReport_saved:
  assumes "AnalysisReport E ms P tbl fn vl fs = Some (Inr (Some sds), st)"
  shows "\<exists>f d fr calls. open_report E fn = Some (f, d) \<and>
           deck st = d @ AddSlide (SOne (PTable fr)) FieldDesc None None [] # calls @ [SaveDeck (report_path E fn)] \<and>
           files st (report_path E fn) = Some (Pptx (d @ AddSlide (SOne (PTable fr)) FieldDesc None None [] # calls)) \<and>
           sds = List.map_filter slide_of calls"
proof -
  obtain vars data f d fr st1 where
    o: "open_report E fn = Some (f, d)" and
    loop: "report_loop E ms data vars (add_slide (SOne (PTable fr)) FieldDesc None None
             (\<lparr>deck = given_deck fn, files = fs, printed = [], slides = []\<rparr>\<lparr>deck := d\<rparr>)) = Some (None, st1)" and
    st: "sds = slides st1" "st = save_deck (fst (splitext f) @ ''.pptx'') st1"
    using assms unfolding AnalysisReport_def
    by (auto simp: Let_def split: option.splits sum.splits prod.splits)
  obtain calls where c: "deck st1 = d @ [AddSlide (SOne (PTable fr)) FieldDesc None None []] @ calls"
    "slides st1 = List.map_filter slide_of calls"
    using run_ok_loop [OF loop] by (auto simp: run_ok_def add_slide_def)
  show ?thesis
    using o c st open_report_path [OF o] by (auto simp: save_deck_def)
qed

text \<open>
  C13: whatever \<open>AnalysisReport\<close> does (returns, raises or refuses the file name), every path
  of the working directory other than the saved deck holds what it held before, except the
  scratch files \<open>kdeplot1.png\<close>, \<open>kdeplot2.png\<close> and \<open>tmp.png\<close>, which may be gone.
\<close>

theorem AnalysisReport_files:
  assumes "AnalysisReport E ms P tbl fn vl fs = Some (r, st)" and "p \<noteq> report_path E fn"
  shows "files st p = fs p \<or> (p \<in> temp_files \<and> files st p = None)"
  using AnalysisReport_run [OF assms(1)] assms(2)
  by (auto simp: run_ok_def files_kept_def state_ops)

text \<open>
  C14: every call \<open>AnalysisReport\<close> makes on the deck finds its pictures: the deck is the
  calls it had before followed by calls whose picture paths all held a file when the slide
  was added (the files are removed only after \<open>add_slide\<close>).
\<close>

theorem AnalysisReport_snapshots:
  assumes "AnalysisReport E ms P tbl fn vl fs = Some (r, st)"
  shows "\<exists>calls. deck st = given_deck fn @ calls \<and> list_all snap_ok calls"
  using AnalysisReport_run [OF assms(1)]
proof (elim disjE exE conjE)
  fix f d fr st1
  assume "open_report E fn = Some (f, d)"
    and "run_ok (add_slide (SOne (PTable fr)) FieldDesc None None
               (\<lparr>deck = given_deck fn, files = fs, printed = [], slides = []\<rparr>\<lparr>deck := d\<rparr>)) st1"
    and "r = Inr (Some (slides st1))" and "st = save_deck (report_path E fn) st1"
  note r = this
  obtain calls where "deck st1 = given_deck fn @ calls" "list_all snap_ok calls"
    using run_from_table_deck [OF r(2,1)] by auto
  then show ?thesis
    using r(4) by (intro exI [of _ "calls @ [SaveDeck (report_path E fn)]"]) (simp add: save_deck_def)
qed (auto simp: log_line_def dest: run_from_table_deck)

text \<open>
  A \<open>number\<close> variable on a numeric column adds one slide with the density and the
  distribution chart of the column as they were saved, its mean, standard deviation and
  maximum, and its count; records that slide in \<open>slides_data\<close>; and leaves no
  \<open>kdeplot1.png\<close> or \<open>kdeplot2.png\<close> behind, a file of that name the user had included.
\<close>

theorem number_var_spec:
  "number_var ms nm (NumCol s) st =
     Some (None,
       st\<lparr>deck := deck st @
              [AddSlide (SMany [PPicture ''kdeplot1.png'', PPicture ''kdeplot2.png'']) (Analysis nm)
                 (Some (num_text (dropna s))) (Some (count s))
                 [Some (Pic (Figure ((legend_step (add_artists (kde_curves [(nm, s)]) new_axes))
                                       \<lparr>axis_mode := Some ''auto''\<rparr>))),
                  Some (Pic (Figure ((legend_step (add_artists [DistPlot (dropna s)] new_axes))
                                       \<lparr>axis_mode := Some ''auto''\<rparr>)))]],
          files := (files st)(''kdeplot1.png'' := None, ''kdeplot2.png'' := None),
          slides := slides st @ [SMany [PPicture ''kdeplot1.png'', PPicture ''kdeplot2.png'']]\<rparr>)"
  by (simp add: number_var_def Let_def plot_fresh fig_to_file_def remove_file_def state_ops fun_upd_twist)

text \<open>
  C15: for an unordered category variable whose counts are not all zero, the summary names
  position 0 and the largest share: pandas 1.x \<open>argmax\<close> is positional and the counts are
  sorted largest first, so the slide never names the most frequent category.
\<close>

theorem category_var_position_zero:
  assumes vc: "col_value_counts col = Some vc" and cells: "col_cells col = Some cells"
    and pos: "0 < sum_list (map snd vc)" and unord: "\<not> ordered v"
  shows "category_var v col st =
           Some (None,
             append_slide (SOne (PChart ''COLUMN_CLUSTERED'' (pct_table (sort_counts vc))))
               (add_slide (SOne (PChart ''COLUMN_CLUSTERED'' (pct_table (sort_counts vc)))) (Analysis (name v))
                  (Some (ShareText 0 (Some (real (Max (set (map snd vc))) * 100 / real (sum_list (map snd vc))))))
                  (Some (count cells)) st))"
proof -
  have "vc \<noteq> []" using pos by auto
  then obtain v0 c0 rest where sc: "sort_counts vc = (v0, c0) # rest" and le: "\<forall>(v, c) \<in> set rest. c \<le> c0"
    and c0: "c0 = Max (set (map snd vc))" and sum: "sum_list (map snd (sort_counts vc)) = sum_list (map snd vc)"
    by (rule sort_counts_head)
  define t where "t = sum_list (map snd vc)"
  have t: "0 < t" using pos by (simp add: t_def)
  have sum': "sum_list (map snd (sort_counts vc)) = t" using sum by (simp add: t_def)
  have tb: "map snd (pct_table (sort_counts vc)) =
              Some (real c0 * 100 / real t) # map (\<lambda>(v, c). Some (real c * 100 / real t)) rest"
    using t unfolding pct_table_def Let_def sum' by (simp add: sc case_prod_beta)
  have "\<forall>y \<in> set (dropna (map (\<lambda>(v, c). Some (real c * 100 / real t)) rest)). y \<le> real c0 * 100 / real t"
    using le t by (auto simp: dropna_map_Some intro!: divide_right_mono)
  then have am: "argmax_series (map snd (pct_table (sort_counts vc))) = Inr 0"
    and mx: "max_series (map snd (pct_table (sort_counts vc))) = Some (real c0 * 100 / real t)"
    using argmax_first tb by metis+
  have mx': "max_series (map snd (pct_table (sort_counts vc))) =
      Some (real (Max (set (map snd vc))) * 100 / real (sum_list (map snd vc)))"
    using mx unfolding c0 t_def .
  have "category_var v col st = Some (share_slide (name v) (pct_table (sort_counts vc)) (Some (count cells)) st)"
    using vc cells unord by (simp add: category_var_def)
  then show ?thesis
    by (simp only: share_slide_def Let_def am mx' sum.case)
qed

text \<open>
  C17: a datetime variable whose column holds no timestamp is not skipped (the maximum of no
  counts is NaN, not 1) and \<open>argmax\<close> of the empty share table raises \<open>ValueError\<close>,
  which ends \<open>AnalysisReport\<close>.
\<close>

theorem datetime_var_no_timestamp:
  assumes "dropna s = []" and "\<not> ordered v"
  shows "datetime_var v (DtCol s) st = Some (Some ValueError, st)"
  using assms
  by (simp add: datetime_var_def value_counts_def pct_table_def share_slide_def argmax_series_def)

text \<open>
  \<open>os.path.splitext\<close> on a name ending in \<open>.pptx\<close> gives back the stem and
  \<open>.pptx\<close> exactly when the stem's base name is not made of dots only.
\<close>

theorem splitext_pptx_roundtrip:
  "splitext (s @ ''.pptx'') = (s, ''.pptx'') \<longleftrightarrow> \<not> list_all (\<lambda>ch. ch = CHR ''.'') (basename s)"
proof -
  have si: "rfind CHR ''/'' (s @ ''.pptx'') = rfind CHR ''/'' s"
    by (rule rfind_append_notin) simp
  have di: "rfind CHR ''.'' (s @ ''.pptx'') = int (length s)"
    using rfind_snoc [of "CHR ''.''" "''pptx''" s] by simp
  have lt: "rfind CHR ''/'' s < int (length s)" by (rule rfind_less)
  have "drop (nat (rfind CHR ''/'' s + 1)) (take (length s) (s @ ''.pptx'')) = basename s"
    by (simp add: basename_def)
  then show ?thesis
    using si di lt by (auto simp: splitext_def Let_def)
qed

text \<open>
  C18: when \<open>AnalysisReport\<close> is given the file name \<open>s + '.pptx'\<close> and completes,
  its last call on the deck saves it under exactly that name (line 494,
  \<open>os.path.splitext(filename)[0] + '.pptx'\<close>) if and only if the base name of
  \<open>s\<close> is not made of dots only; otherwise (\<open>'.pptx'\<close>, \<open>'out/..pptx'\<close>)
  \<open>splitext\<close> finds no extension and the deck goes to \<open>s + '.pptx.pptx'\<close>.
\<close>

theorem AnalysisReport_saved_as_given:
  assumes "AnalysisReport E ms P tbl (FStr (s @ ''.pptx'')) vl fs = Some (Inr (Some sds), st)"
  shows "last (deck st) = SaveDeck (s @ ''.pptx'') \<longleftrightarrow>
         \<not> list_all (\<lambda>ch. ch = CHR ''.'') (basename s)"
proof -
  obtain st1 where "st = save_deck (fst (splitext (s @ ''.pptx'')) @ ''.pptx'') st1"
    using assms unfolding AnalysisReport_def
    by (auto simp: Let_def split: option.splits sum.splits prod.splits)
  then have "last (deck st) = SaveDeck (fst (splitext (s @ ''.pptx'')) @ ''.pptx'')"
    by (simp add: save_deck_def)
  moreover have "fst (splitext (s @ ''.pptx'')) = s \<longleftrightarrow> splitext (s @ ''.pptx'') = (s, ''.pptx'')"
    using splitext_append [of "s @ ''.pptx''"] by (cases "splitext (s @ ''.pptx'')") auto
  ultimately show ?thesis using splitext_pptx_roundtrip [of s] by simp
qed

section \<open>Witnesses\<close>

lemma AnalysisReport_saved_witness:
  "\<exists>st. AnalysisReport rep_env rep_ms std_parsers rep_tbl (FStr ''out.pptx'') (Some rep_vars) rep_fs =
          Some (Inr (Some rep_sds), st) \<and>
        (\<exists>calls. rep_sds = List.map_filter slide_of calls \<and> files st ''out.pptx'' \<noteq> None)"
proof -
  obtain st where r: "AnalysisReport rep_env rep_ms std_parsers rep_tbl (FStr ''out.pptx'') (Some rep_vars) rep_fs =
      Some (Inr (Some rep_sds), st)" using rep_run by blast
  have p: "report_path rep_env (FStr ''out.pptx'') = ''out.pptx''"
    by (simp add: report_path_def splitext_def rfind_def)
  show ?thesis using AnalysisReport_saved [OF r] r p by auto
qed

lemma AnalysisReport_saved_as_given_witness:
  "\<exists>st. AnalysisReport rep_env rep_ms std_parsers rep_tbl (FStr (''out'' @ ''.pptx'')) (Some rep_vars) rep_fs =
          Some (Inr (Some rep_sds), st) \<and> last (deck st) = SaveDeck (''out'' @ ''.pptx'')"
proof -
  obtain st where r: "AnalysisReport rep_env rep_ms std_parsers rep_tbl (FStr (''out'' @ ''.pptx'')) (Some rep_vars) rep_fs =
      Some (Inr (Some rep_sds), st)" using rep_run by auto
  have "\<not> list_all (\<lambda>ch. ch = CHR ''.'') (basename ''out'')" by (simp add: basename_def rfind_def)
  with AnalysisReport_saved_as_given [OF r] r show ?thesis by blast
qed

lemma AnalysisReport_files_witness:
  "\<exists>r st. AnalysisReport rep_env rep_ms std_parsers rep_tbl (FStr ''out.pptx'') (Some rep_vars) rep_fs = Some (r, st) \<and>
          files st ''data.csv'' = Some (Pic (Cloud ''csv''))"
proof -
  obtain st where r: "AnalysisReport rep_env rep_ms std_parsers rep_tbl (FStr ''out.pptx'') (Some rep_vars) rep_fs =
      Some (Inr (Some rep_sds), st)" using rep_run by blast
  have p: "''data.csv'' \<noteq> report_path rep_env (FStr ''out.pptx'')"
    by (simp add: report_path_def splitext_def rfind_def)
  have "files st ''data.csv'' = rep_fs ''data.csv'' \<or> (''data.csv'' \<in> temp_files \<and> files st ''data.csv'' = None)"
    by (rule AnalysisReport_files [OF r p])
  then show ?thesis using r by (auto simp: rep_fs_def temp_files_def)
qed

lemma AnalysisReport_snapshots_witness:
  "\<exists>r st. AnalysisReport rep_env rep_ms std_parsers rep_tbl (FStr ''out.pptx'') (Some rep_vars) rep_fs = Some (r, st) \<and>
          list_all snap_ok (deck st)"
proof -
  obtain st where r: "AnalysisReport rep_env rep_ms std_parsers rep_tbl (FStr ''out.pptx'') (Some rep_vars) rep_fs =
      Some (Inr (Some rep_sds), st)" using rep_run by blast
  show ?thesis using AnalysisReport_snapshots [OF r] r by auto
qed

lemma category_var_position_zero_witness:
  "\<exists>st'. category_var rep_city (ObjCol [Some (PStr ''a''), Some (PStr ''b''), Some (PStr ''a'')]) rep_st0 = Some (None, st') \<and>
         deck st' = [AddSlide (SOne (PChart ''COLUMN_CLUSTERED'' (pct_table (sort_counts [(SObj (PStr ''b''), 1), (SObj (PStr ''a''), 2)]))))
                       (Analysis ''city'') (Some (ShareText 0 (Some (200 / 3)))) (Some 3) []]"
proof -
  have vc: "col_value_counts (ObjCol [Some (PStr ''a''), Some (PStr ''b''), Some (PStr ''a'')]) =
              Some [(SObj (PStr ''b''), 1), (SObj (PStr ''a''), 2)]"
    by (simp add: value_counts_def)
  have cells: "col_cells (ObjCol [Some (PStr ''a''), Some (PStr ''b''), Some (PStr ''a'')]) =
                 Some [Some (SObj (PStr ''a'')), Some (SObj (PStr ''b'')), Some (SObj (PStr ''a''))]"
    by simp
  have pos: "0 < sum_list (map snd [(SObj (PStr ''b''), 1::nat), (SObj (PStr ''a''), 2)])" by simp
  have un: "\<not> ordered rep_city" by (simp add: rep_city_def)
  show ?thesis
    using category_var_position_zero [OF vc cells pos un, of rep_st0]
    by (simp add: rep_city_def rep_st0_def state_ops count_def)
qed

lemma datetime_var_no_timestamp_witness:
  "dropna [None, None :: int option] = [] \<and> \<not> ordered (mk_result ''t'' Datetime False []) \<and>
   datetime_var (mk_result ''t'' Datetime False []) (DtCol [None, None]) rep_st0 = Some (Some ValueError, rep_st0)"
  using datetime_var_no_timestamp [of "[None, None]" "mk_result ''t'' Datetime False []" rep_st0]
  by (simp add: mk_result_def)

section \<open>Examples\<close>

text \<open>An empty file name saves the deck as the hidden file \<open>.pptx\<close>.\<close>

lemma splitext_empty_name: "fst (splitext []) @ ''.pptx'' = ''.pptx'' \<and> splitext ''.pptx'' = (''.pptx'', [])"
  by (simp add: splitext_def rfind_def)

end
