(* ===== verification/Pipeline.thy ===== *)
theory Pipeline
  imports Report
begin

text \<open>
  How the parts of \<open>AnalysisReport\<close> (\<open>src/reportgen/analysis.py\<close>, lines 394--495)
  fit together: what \<open>var_detection\<close> hands to the report loop, and which variable
  lists the report loop accepts. A variable is typed against a table when a \<open>number\<close>
  variable names a numeric column, a \<open>datetime\<close> variable a datetime column, and every
  member of a \<open>group_number\<close> variable a numeric column; the classifier's results and
  its merged groups are typed against the table it rewrites. Every branch of the report
  loop then returns (a value or an exception) on a typed variable, so the whole call
  returns exactly when the grouping loop of \<open>var_detection\<close> does.
\<close>

section \<open>Typed tables and variables\<close>

text \<open>The column stored under a name satisfies a dtype test.\<close>

definition col_is :: "(column \<Rightarrow> bool) \<Rightarrow> table \<Rightarrow> string \<Rightarrow> bool" where
  "col_is p data c \<longleftrightarrow> (case map_of data c of Some col \<Rightarrow> p col | None \<Rightarrow> False)"

text \<open>No column of a dtype the model leaves opaque.\<close>

definition no_opaque :: "table \<Rightarrow> bool" where
  "no_opaque data \<longleftrightarrow> list_all (\<lambda>(c, col). col \<noteq> OtherCol) data"

definition var_typed :: "table \<Rightarrow> result \<Rightarrow> bool" where
  "var_typed data v \<longleftrightarrow>
     (case vtype v of
        Number \<Rightarrow> col_is is_numeric data (name v)
      | Datetime \<Rightarrow> col_is is_datetime data (name v)
      | Group_number \<Rightarrow> list_all (col_is is_numeric data) (vl_of v)
      | _ \<Rightarrow> True)"

section \<open>Lemmas on the classifier's columns\<close>

lemma no_opaque_lookup: "no_opaque data \<Longrightarrow> map_of data c = Some col \<Longrightarrow> col \<noteq> OtherCol"
  by (auto simp: no_opaque_def list_all_iff dest: map_of_SomeD)

lemma set_update_subset: "set (AList.update k v al) \<subseteq> insert (k, v) (set al)"
  by (induction al) auto

lemma no_opaque_update:
  "no_opaque data \<Longrightarrow> col \<noteq> OtherCol \<Longrightarrow> no_opaque (AList.update c col data)"
  using set_update_subset [of c col data] by (auto simp: no_opaque_def list_all_iff)

lemma factor_collapse_not_other: "col \<noteq> OtherCol \<Longrightarrow> factor_collapse dt2cat n col \<noteq> OtherCol"
  by (cases col) (auto simp: factor_collapse_def to_category_def)

lemma percent_step_not_other:
  "percent_step P col = Inr col' \<Longrightarrow> col \<noteq> OtherCol \<Longrightarrow> col' \<noteq> OtherCol"
  by (cases col) (auto simp: pct_convert_def split: if_splits option.splits)

lemma dtype_detection_not_other:
  assumes "dtype_detection P cd st dt2cat c col = Inr (r, col')" and "col \<noteq> OtherCol"
  shows "col' \<noteq> OtherCol"
proof (cases col)
  case (NumCol s)
  with assms show ?thesis by (auto simp: num_detection_def to_category_def Let_def split: if_splits)
next
  case (ObjCol s)
  define col1 where "col1 = (if looks_like_datetime s then try_to_datetime P s else ObjCol s)"
  have c1: "col1 \<noteq> OtherCol" by (simp add: col1_def try_to_datetime_def split: option.splits)
  obtain col3 where p: "percent_step P (factor_collapse dt2cat (count s) col1) = Inr col3"
    and c3: "col' = col3"
    using assms(1) ObjCol
    by (auto simp: str_detection_def col1_def Let_def split: sum.splits prod.splits)
  show ?thesis using percent_step_not_other [OF p factor_collapse_not_other [OF c1]] c3 by simp
qed (use assms in auto)

lemma classify_columns_frame:
  "classify_columns P cs tbl = Inr (L, tbl') \<Longrightarrow> c \<notin> set cs \<Longrightarrow> map_of tbl' c = map_of tbl c"
proof (induction cs arbitrary: tbl L)
  case (Cons d cs)
  from Cons.prems(1) obtain ro col' rs where
    rest: "classify_columns P cs (AList.update d col' tbl) = Inr (rs, tbl')"
    by (auto simp: detect_in_table_def split: option.splits sum.splits prod.splits)
  show ?case using Cons.IH [OF rest] Cons.prems(2) by (simp add: update_conv')
qed simp

lemma classify_columns_no_opaque:
  "classify_columns P cs tbl = Inr (L, tbl') \<Longrightarrow> no_opaque tbl \<Longrightarrow> no_opaque tbl'"
proof (induction cs arbitrary: tbl L)
  case (Cons d cs)
  from Cons.prems(1) obtain col ro col' rs where
    col: "map_of tbl d = Some col" and det: "dtype_detection P True True True d col = Inr (ro, col')"
    and rest: "classify_columns P cs (AList.update d col' tbl) = Inr (rs, tbl')"
    by (auto simp: detect_in_table_def split: option.splits sum.splits prod.splits)
  have "col' \<noteq> OtherCol"
    using dtype_detection_not_other [OF det no_opaque_lookup [OF Cons.prems(2) col]] .
  then show ?case using Cons.IH [OF rest] no_opaque_update Cons.prems(2) by blast
qed simp

text \<open>Each result of the loop describes the column the loop leaves under its name.\<close>

lemma classify_columns_results:
  assumes "classify_columns P cs tbl = Inr (L, tbl')" and "distinct cs" and "r \<in> set L"
  shows "\<exists>col. map_of tbl' (name r) = Some col \<and> wf_result (name r) r col"
  using assms
proof (induction cs arbitrary: tbl L)
  case (Cons d cs)
  from Cons.prems(1) obtain col ro col' rs where
    det: "dtype_detection P True True True d col = Inr (ro, col')"
    and rest: "classify_columns P cs (AList.update d col' tbl) = Inr (rs, tbl')"
    and L: "L = (case ro of None \<Rightarrow> rs | Some x \<Rightarrow> x # rs)"
    by (auto simp: detect_in_table_def split: option.splits sum.splits prod.splits)
  have dcs: "d \<notin> set cs" "distinct cs" using Cons.prems(2) by auto
  show ?case
  proof (cases "r \<in> set rs")
    case True
    then show ?thesis using Cons.IH [OF rest dcs(2)] by blast
  next
    case False
    with L Cons.prems(3) have ro: "ro = Some r" by (cases ro) auto
    have wf: "wf_result d r col'" using detection_wf_result det ro by blast
    then have "name r = d" by (simp add: wf_result_def)
    moreover have "map_of tbl' d = Some col'"
      using classify_columns_frame [OF rest dcs(1)] by (simp add: update_conv')
    ultimately show ?thesis using wf by blast
  qed
qed simp

section \<open>Lemmas on the merged variable list\<close>

lemma collect_run_number: "k < length (collect_run xs) \<Longrightarrow> vtype (xs ! k) = Number"
proof (induction xs arbitrary: k)
  case (Cons v vs)
  then show ?case by (cases k) (auto split: if_splits option.splits)
qed simp

text \<open>The scan groups only columns reported as \<open>number\<close>.\<close>

lemma scan_ref_numbers:
  "scan_ref L i acc = Some gs \<Longrightarrow> \<forall>g\<in>set acc. \<forall>j\<in>set g. vtype (L ! j) = Number \<Longrightarrow>
   \<forall>g\<in>set gs. \<forall>j\<in>set g. vtype (L ! j) = Number"
proof (induction L i acc rule: scan_ref.induct)
  case (1 L i acc)
  define run where "run = collect_run (drop i L)"
  have num: "vtype (L ! j) = Number" if "i \<le> j" "j < i + length run" for j
  proof -
    have "j - i < length (collect_run (drop i L))" using that by (simp add: run_def)
    moreover have "i + (j - i) < length L"
      using that length_collect_run [of "drop i L"] by (simp add: run_def)
    ultimately show ?thesis using collect_run_number [of "j - i" "drop i L"] that by simp
  qed
  have sr: "scan_ref L i acc = Some gs" and acc: "\<forall>g\<in>set acc. \<forall>j\<in>set g. vtype (L ! j) = Number"
    using "1.prems" by blast+
  consider (stop) "\<not> Suc i < length L"
    | (skip) "Suc i < length L" "vtype (L ! i) \<noteq> Number \<or> vtype (L ! Suc i) \<noteq> Number"
    | (short) "Suc i < length L" "\<not> (vtype (L ! i) \<noteq> Number \<or> vtype (L ! Suc i) \<noteq> Number)"
        "length run < 2"
    | (grp) "Suc i < length L" "\<not> (vtype (L ! i) \<noteq> Number \<or> vtype (L ! Suc i) \<noteq> Number)"
        "\<not> length run < 2" "same_prefix run \<and> suffix_span_ok run"
    | (bad) "Suc i < length L" "\<not> (vtype (L ! i) \<noteq> Number \<or> vtype (L ! Suc i) \<noteq> Number)"
        "\<not> length run < 2" "\<not> (same_prefix run \<and> suffix_span_ok run)"
    by blast
  then show ?case
  proof cases
    case stop
    with sr have "gs = acc" by (subst (asm) scan_ref.simps) simp
    with acc show ?thesis by simp
  next
    case skip
    with sr have "scan_ref L (Suc i) acc = Some gs" by (subst (asm) scan_ref.simps) simp
    with skip acc show ?thesis using "1.IH"(1) by blast
  next
    case short
    with sr have "scan_ref L (Suc i) acc = Some gs" by (subst (asm) scan_ref.simps) (simp add: run_def)
    with short acc show ?thesis using "1.IH"(2) [OF short(1,2) refl] by (simp add: run_def)
  next
    case grp
    with sr have "scan_ref L (i + length run) (acc @ [[i..<i + length run]]) = Some gs"
      by (subst (asm) scan_ref.simps) (simp add: run_def Let_def)
    moreover have "\<forall>g\<in>set (acc @ [[i..<i + length run]]). \<forall>j\<in>set g. vtype (L ! j) = Number"
      using acc num by auto
    ultimately show ?thesis using "1.IH"(3) [OF grp(1,2) refl] grp(3,4) by (simp add: run_def)
  next
    case bad
    with sr show ?thesis by (subst (asm) scan_ref.simps) (simp add: run_def Let_def del: de_Morgan_conj)
  qed
qed

lemma spec_emit_members:
  "v \<in> set (spec_emit L i gs) \<Longrightarrow> (\<exists>r\<in>set L. v = single_entry r) \<or> (\<exists>g\<in>set gs. v = group_entry L g)"
proof (induction gs arbitrary: i)
  case Nil
  then show ?case by (auto dest: in_set_dropD)
next
  case (Cons g gs)
  from Cons.prems consider (a) "v \<in> single_entry ` set (take (hd g - i) (drop i L))"
    | (b) "v = group_entry L g" | (c) "v \<in> set (spec_emit L (hd g + length g) gs)"
    by auto
  then show ?case
  proof cases
    case a
    then show ?thesis by (auto dest: in_set_takeD in_set_dropD)
  next
    case c
    then show ?thesis using Cons.IH by auto
  qed simp
qed

lemma single_entry_typed:
  "map_of data (name r) = Some col \<Longrightarrow> wf_result (name r) r col \<Longrightarrow> var_typed data (single_entry r)"
  by (cases col; cases "vtype r") (simp_all add: var_typed_def single_entry_def col_is_def wf_result_def)

lemma group_entry_typed:
  assumes "\<forall>j\<in>set g. j < length L \<and> vtype (L ! j) = Number"
    and "\<forall>r\<in>set L. \<exists>col. map_of data (name r) = Some col \<and> wf_result (name r) r col"
  shows "var_typed data (group_entry L g)"
proof -
  have "col_is is_numeric data (name (L ! j))" if "j \<in> set g" for j
  proof -
    from assms(1) that have j: "j < length L" and n: "vtype (L ! j) = Number" by auto
    then obtain col where "map_of data (name (L ! j)) = Some col" "wf_result (name (L ! j)) (L ! j) col"
      using assms(2) nth_mem by blast
    with n show ?thesis by (simp add: col_is_def wf_result_def)
  qed
  then show ?thesis by (simp add: var_typed_def group_entry_def vl_of_def Let_def list_all_iff)
qed

text \<open>What \<open>var_detection\<close> returns is typed against the table it returns.\<close>

lemma var_detection_typed:
  assumes "distinct (map fst tbl)" and "no_opaque tbl"
    and "var_detection P True tbl = Some (Inr (vars, data))"
  shows "no_opaque data \<and> list_all (var_typed data) vars"
proof -
  obtain L gs where cls: "classify_columns P (map fst tbl) tbl = Inr (L, data)"
    and gs: "group_scan L 0 [] = Some gs" and em: "emit_groups L gs = Inr vars"
    using assms(3) by (auto simp: var_detection_def split: sum.splits option.splits prod.splits)
  have names: "map name L = map fst (filter (\<lambda>(c, col). recognised col) tbl)"
    using classify_columns_names [OF cls assms(1)] filter_keys_recognised [OF assms(1)] by simp
  have dist: "distinct (map name L)"
    using assms(1) by (simp add: names distinct_map_filter)
  have sr: "scan_ref L 0 [] = Some gs" by (rule group_scan_scan_ref [OF gs])
  have ok: "ok_groups 0 (length L) gs" using scan_ref_ok_groups [OF sr] by auto
  have vars: "vars = spec_emit L 0 gs" using emit_groups_spec [OF sr dist] em by simp
  have res: "\<forall>r\<in>set L. \<exists>col. map_of data (name r) = Some col \<and> wf_result (name r) r col"
    using classify_columns_results [OF cls assms(1)] by blast
  have nums: "\<forall>g\<in>set gs. \<forall>j\<in>set g. vtype (L ! j) = Number"
    using scan_ref_numbers [OF sr] by simp
  have "var_typed data v" if v: "v \<in> set vars" for v
  proof -
    from spec_emit_members [of v L 0 gs] v vars
    consider (single) r where "r \<in> set L" "v = single_entry r"
      | (group) g where "g \<in> set gs" "v = group_entry L g"
      by blast
    then show ?thesis
    proof cases
      case single
      with res show ?thesis using single_entry_typed by blast
    next
      case group
      have "\<forall>j\<in>set g. j < length L \<and> vtype (L ! j) = Number"
        using ok_groups_member [OF ok group(1)] ok_groups_mem_iff [OF ok group(1)] nums group(1)
        by fastforce
      then show ?thesis using group_entry_typed [OF _ res] group(2) by blast
    qed
  qed
  then show ?thesis
    using classify_columns_no_opaque [OF cls assms(2)] by (simp add: list_all_iff)
qed

section \<open>Every branch of the report loop returns on a typed variable\<close>

lemma col_cells_defined: "col \<noteq> OtherCol \<Longrightarrow> col_cells col \<noteq> None"
  by (cases col) auto

lemma col_value_counts_defined: "col \<noteq> OtherCol \<Longrightarrow> col_value_counts col \<noteq> None"
  by (cases col) auto

lemma those_num_cells:
  "list_all (col_is is_numeric data) vl \<Longrightarrow> those (map (map_of data) vl) = Some cols \<Longrightarrow>
   those (map num_cells cols) \<noteq> None"
proof (induction vl arbitrary: cols)
  case (Cons c vl)
  then obtain col where col: "map_of data c = Some col" and "is_numeric col"
    by (auto simp: col_is_def split: option.splits)
  then obtain s where "col = NumCol s" by (cases col) auto
  with Cons col show ?case by (auto split: option.splits)
qed simp

lemma report_var_returns:
  assumes "no_opaque data" and "var_typed data v"
  shows "report_var E ms data v st \<noteq> None"
proof (cases "vlist v")
  case (Some vl)
  have other: "map_of data c = Some col \<Longrightarrow> col \<noteq> OtherCol" for c col
    using no_opaque_lookup [OF assms(1)] .
  show ?thesis
  proof (cases "vtype v")
    case Number
    with assms(2) obtain s where "map_of data (name v) = Some (NumCol s)"
      by (auto simp: var_typed_def col_is_def elim!: is_numeric.elims split: option.splits)
    with Some Number show ?thesis by (simp add: report_var_def with_column_def number_var_def Let_def)
  next
    case Category
    note vl = Some
    show ?thesis
    proof (cases "map_of data (name v)")
      case (Some col)
      then have "col \<noteq> OtherCol" by (rule other)
      then obtain vc cells where "col_value_counts col = Some vc" "col_cells col = Some cells"
        using col_cells_defined col_value_counts_defined by blast
      with Some vl Category show ?thesis
        by (simp add: report_var_def with_column_def category_var_def Let_def)
    qed (simp add: report_var_def with_column_def Category vl)
  next
    case Datetime
    with assms(2) obtain s where "map_of data (name v) = Some (DtCol s)"
      by (auto simp: var_typed_def col_is_def elim!: is_datetime.elims split: option.splits)
    with Some Datetime show ?thesis by (simp add: report_var_def with_column_def datetime_var_def Let_def)
  next
    case Text
    note vl = Some
    show ?thesis
    proof (cases "map_of data (name v)")
      case (Some col)
      then obtain cells where "col_cells col = Some cells"
        using other col_cells_defined by blast
      with Some vl Text show ?thesis
        by (auto simp: report_var_def text_var_def Let_def split: sum.splits prod.splits option.splits)
    qed (simp add: report_var_def text_var_def Text vl)
  next
    case Group_number
    with assms(2) Some have "list_all (col_is is_numeric data) vl" by (simp add: var_typed_def vl_of_def)
    then have "those (map (map_of data) vl) = Some cols \<Longrightarrow> those (map num_cells cols) \<noteq> None" for cols
      by (rule those_num_cells)
    with Some Group_number show ?thesis
      by (auto simp: report_var_def group_var_def split: option.splits)
  qed (simp add: report_var_def Some)
qed (simp add: report_var_def)

lemma report_loop_returns:
  "no_opaque data \<Longrightarrow> list_all (var_typed data) vs \<Longrightarrow> report_loop E ms data vs st \<noteq> None"
proof (induction vs arbitrary: st)
  case (Cons v vs)
  obtain r where "report_var E ms data v st = Some r" using report_var_returns Cons.prems by fastforce
  with Cons show ?case by (auto split: option.splits prod.splits)
qed simp

lemma describe_loop_returns: "no_opaque tbl \<Longrightarrow> describe_loop fr tbl \<noteq> None"
proof (induction tbl arbitrary: fr)
  case (Cons p tbl)
  obtain c col where p: "p = (c, col)" by (cases p)
  with Cons.prems have "col \<noteq> OtherCol" "no_opaque tbl" by (simp_all add: no_opaque_def)
  then obtain sm where "describe_col col = Some sm" by (cases col) auto
  with Cons.IH [OF \<open>no_opaque tbl\<close>] p show ?case by simp
qed simp

lemma AnalysisReport_typed_returns:
  assumes "no_opaque tbl" and "list_all (var_typed tbl) vs"
  shows "AnalysisReport E ms P tbl filename (Some vs) fs \<noteq> None"
proof -
  obtain fr where fr: "describe tbl = Some fr"
    using describe_loop_returns [OF assms(1)] by (auto simp: describe_def)
  show ?thesis
  proof (cases "open_report E filename")
    case (Some fd)
    obtain f d where fd: "fd = (f, d)" by (cases fd)
    obtain r where r: "report_loop E ms tbl vs
        (add_slide (SOne (PTable fr)) FieldDesc None None \<lparr>deck = d, files = fs, printed = [], slides = []\<rparr>) = Some r"
      using report_loop_returns [OF assms] by blast
    show ?thesis using Some fd fr r by (cases r) (simp add: AnalysisReport_def Let_def split: option.split)
  qed (simp add: AnalysisReport_def Let_def)
qed

text \<open>Without a \<open>var_list\<close>, the call goes on as if it had been given the detected one and the rewritten table.\<close>

lemma AnalysisReport_detected:
  "var_detection P True tbl = Some (Inr (vars, data)) \<Longrightarrow>
   AnalysisReport E ms P tbl filename None fs = AnalysisReport E ms P data filename (Some vars) fs"
  by (simp add: AnalysisReport_def)

end
