(* ===== verification/Spec2Isabelle.thy ===== *)
theory Spec2Isabelle
  imports Scanner Distribution Describe Pipeline
begin

text \<open>
  \<^bold>\<open>A verification development of reportgen's type-inference engine.\<close>

  \<^bold>\<open>The program.\<close> \<open>src/reportgen/analysis.py\<close> infers the semantic type of each
  column of a pandas data frame and feeds the result to a slide-report builder. Its
  parts, leaves first:
  \<^item> the Distribution Estimator, \<open>_freedman_diaconis_bins\<close> and \<open>distributions\<close>
    (lines 42--94): histogram and Gaussian kernel density of a numeric array;
  \<^item> the Column Classifier, \<open>dtype_detection\<close> (lines 97--210): the vtype of one
    column (number, category, datetime, text, text_st) and, as a side effect, the
    column rewritten in the caller's data frame (integral floats truncated, strings
    parsed as timestamps, small-cardinality columns made categorical, percent strings
    made fractions);
  \<^item> the Table Scanner and Grouper, \<open>type_of_var\<close> and \<open>var_detection\<close>
    (lines 215--313): the classifier over every column, then a scan that merges runs of
    numeric columns named \<open>prefix + consecutive digits\<close> into one
    \<open>group_number\<close> variable;
  \<^item> Summary Statistics, \<open>describe\<close> (lines 315--324): pandas' \<open>describe\<close> per
    column, joined side by side;
  \<^item> the module configuration (lines 32--38): at import, \<open>myfont\<close> is bound and the
    seaborn font set only when \<open>config.font_path\<close> is set;
  \<^item> Plotting, \<open>plot\<close> (lines 327--390): density, distribution or scatter charts drawn
    on a matplotlib axes;
  \<^item> Report assembly, \<open>AnalysisReport\<close> (lines 394--495): classifies the table, then
    drives the slide writer with the \<open>describe\<close> table and one slide per variable,
    writing and deleting scratch pictures in the working directory.
  The scanner calls the classifier once per column and threads the data frame through
  the calls, since each call may replace the column it classified; the report builder
  consumes the scanner's variable list and table, \<open>describe\<close>, and \<open>plot\<close>, which reads
  the module's font.

  \<^bold>\<open>The theories.\<close>
  \<^item> \<open>Prelude\<close>: Python exceptions as the datatype \<open>pyerr\<close>, a pandas series as a
    list of \<open>option\<close> cells (\<open>None\<close> is NaN/NaT), \<open>dropna\<close>, \<open>count\<close>,
    \<open>nunique\<close>, whole-series conversion \<open>parse_series\<close> (all cells or an
    exception), truncation \<open>ptrunc\<close> (\<open>astype(int64)\<close>), the comparisons
    \<open>less_sqrt\<close> (\<open>u < np.sqrt(n)\<close>), \<open>std_less\<close> and \<open>std_zero\<close> (pandas'
    sample standard deviation against a constant, NaN below two values) with executable
    code equations, and decimal digits.
  \<^item> \<open>Column\<close>: the classifier. The dtype and cells of a column are the datatype
    \<open>column\<close> (\<open>NumCol\<close>, \<open>ObjCol\<close> of \<open>pyobj\<close> cells, \<open>DtCol\<close>,
    \<open>CatCol\<close>, \<open>OtherCol\<close>); the result dictionary is the record \<open>result\<close>. The
    numeric branch is \<open>int_fix\<close> and \<open>num_detection\<close>; the string branch is the
    pipeline \<open>looks_like_datetime\<close>/\<open>try_to_datetime\<close>, \<open>factor_collapse\<close>,
    \<open>percent_step\<close> and \<open>str_result\<close>, composed in \<open>str_detection\<close>;
    \<open>dtype_detection\<close> dispatches on the dtype. \<open>pd.to_datetime\<close> and
    \<open>float()\<close> on strings are the parameters \<open>parsers\<close>: every lemma holds for any
    parser, and the witnesses use \<open>std_parsers\<close> (ISO dates, plain decimals).
  \<^item> \<open>Scanner\<close>: \<open>detect_in_table\<close> (the classifier on a named column of a table,
    writing the column back), \<open>classify_columns\<close> and \<open>type_of_var\<close>; the name pattern
    \<open>name_match\<close> (\<open>type_of_var\<close> rewrites the caller's table for either value of
    \<open>inplace\<close>: \<open>data.loc[:, :]\<close> is the caller's frame in pandas 1.x); the grouping scan \<open>group_scan\<close> as a \<open>partial_function (option)\<close>
    (\<open>None\<close> is a loop that never returns), the emission \<open>emit_groups\<close>, and
    \<open>var_detection\<close>. The reference semantics are the total scan \<open>scan_ref\<close> (terminating
    on the measure \<open>length L - i\<close>), the interval shape \<open>ok_groups\<close> and the intended
    emission \<open>spec_emit\<close>.
  \<^item> \<open>Distribution\<close>: \<open>_freedman_diaconis_bins\<close> as \<open>fd_bins\<close> (with
    \<open>np.percentile\<close>/\<open>utils.iqr\<close> as \<open>percentile\<close> and \<open>iqr\<close>, modelled from their
    documented semantics since \<open>utils\<close> is not under \<open>src/\<close>), \<open>np.histogram\<close> as
    \<open>hist_range\<close>, \<open>bin_index\<close> and \<open>histogram\<close>, \<open>np.linspace\<close>, the normalisation
    \<open>norm_counts\<close>, scipy's one-dimensional \<open>gaussian_kde\<close> with the retry
    \<open>kde_fit\<close>, \<open>kde_eval\<close>, \<open>kde_support\<close>, and \<open>distributions\<close> composed of
    \<open>hist_part\<close> and \<open>kde_part\<close>. Arithmetic is exact; the code equations of
    \<open>fd_bins\<close> (an exact search \<open>cbrt_ceil\<close> for the ceiling of a cube root) and of
    \<open>isqrt\<close> make the bin count executable.
  \<^item> \<open>Describe\<close>: \<open>describe\<close>: the pandas 1.x summaries \<open>num_summary\<close>,
    \<open>cat_summary\<close> (with \<open>top_freq\<close>) and \<open>dt_summary\<close> chosen by \<open>describe_col\<close>,
    and the outer join \<open>concat_col\<close> of \<open>pd.concat(axis=1)\<close> folded by
    \<open>describe_loop\<close>; the reference is \<open>join_spec\<close> over \<open>labels\<close>.
  \<^item> \<open>Plot\<close>: the module globals as the record \<open>module_state\<close> built by \<open>module_init\<close>;
    a matplotlib axes as the record \<open>axes\<close> of the \<open>artist\<close>s drawn and the settings made,
    the legend test \<open>legend_step\<close>, the scatter branch (\<open>scatter_part\<close>,
    \<open>scatter_loop\<close>, \<open>scatter_frame\<close>, \<open>annotate_rows\<close>) and \<open>plot\<close> returning the
    chart record or \<open>None\<close>. seaborn 0.9/0.10 behaviour is assumed (series name as
    label, nothing drawn for an empty series).
  \<^item> \<open>Report\<close>: \<open>AnalysisReport\<close> as explicit state \<open>rstate\<close>: the calls on the
    \<open>Report\<close> object (\<open>deck_call\<close>: \<open>add_cover\<close>, \<open>add_slide\<close> with what its picture
    paths held, \<open>save\<close>), the working directory as a map from paths to contents
    (\<open>save_file\<close>, \<open>remove_file\<close>, \<open>save_deck\<close>), the printed lines and
    \<open>slides_data\<close>. One definition per branch of the loop body (\<open>number_var\<close>,
    \<open>category_var\<close>, \<open>datetime_var\<close>, \<open>text_var\<close>, \<open>group_var\<close>) dispatched by
    \<open>report_var\<close>, the loop \<open>report_loop\<close>, the file-name handling \<open>open_report\<close>
    with \<open>os.path.splitext\<close> (\<open>splitext\<close>), and \<open>AnalysisReport\<close>. Exceptions are
    \<open>Some e\<close> next to the state they leave; the formatted texts are kept as their
    arguments; \<open>time.strftime\<close> and the word-cloud generator are the parameters \<open>env\<close>.
  \<^item> \<open>Pipeline\<close>: how the scanner's output meets the report loop. The predicates
    \<open>no_opaque\<close> (no column of an opaque dtype), \<open>col_is\<close> and \<open>var_typed\<close> (a
    \<open>number\<close> variable names a numeric column, a \<open>datetime\<close> variable a datetime column,
    each member of a \<open>group_number\<close> variable a numeric column) are the interface; the
    lemmas show that \<open>classify_columns\<close> keeps tables free of opaque columns and leaves
    each result's column under its name (\<open>classify_columns_results\<close>), that the scan
    groups only \<open>number\<close> results (\<open>scan_ref_numbers\<close>), so that what
    \<open>var_detection\<close> returns is typed (\<open>var_detection_typed\<close>), and that every
    branch of \<open>report_var\<close>, the loop and \<open>describe\<close> return on typed input
    (\<open>report_var_returns\<close>, \<open>AnalysisReport_typed_returns\<close>).

  \<^bold>\<open>What is proved.\<close>
  \<^item> Classifier: well-formedness of every result against the rewritten column, the category
    threshold (and that the mean-frequency test is redundant), the percent, datetime and
    structured-text paths, the exceptions it raises, idempotence on numbers, and the cases
    that diverge from the spec (integral test by sums, categorical columns dropped on
    re-classification).
  \<^item> Scanner: the variable list names every recognised column once in table order
    (\<open>var_detection_partition\<close>); the \<open>while\<close> loop equals \<open>scan_ref\<close> and never returns
    on a run that fails the prefix or suffix test (\<open>group_scan_diverges\<close>, the spec's
    \<open>Q1_a, Q1_b, Q1_c\<close> example); the suffix test compares only the span of the suffixes
    (\<open>suffix_span_ok_span\<close>); the name pattern round trip; \<open>type_of_var\<close> reports the
    classifier's vtypes and leaves its rewrites in the caller's table whatever \<open>inplace\<close>
    says (\<open>type_of_var_spec\<close>).
  \<^item> Distribution: normalised counts sum to 1; the default bin count lies in 1..50, and the
    default histogram fails exactly on an empty array (\<open>ValueError\<close>) and on a single
    value (\<open>TypeError\<close>: the \<open>squeeze()\<close> of line 64 makes it 0-d); the zero-IQR
    fallback is the floor of the square root; density failures are exactly
    \<open>ValueError\<close> (under two values) and \<open>LinAlgError\<close> (constant data), the
    \<open>TypeError\<close> retry letting both through; default arguments give both outputs with a positive
    density on a grid that spans the data.
  \<^item> Describe: \<open>describe\<close> is the outer join of the summaries; the frame is well formed
    and keeps column order. Lemmas on the pandas summaries themselves (ordered quartiles,
    \<open>top\<close>/\<open>freq\<close> a most frequent value and its count) check the library model.
  \<^item> Plot: \<open>plot\<close> returns \<open>None\<close> for a figure type other than matplotlib's; a
    scatter raises \<open>NameError\<close> exactly when no font was configured at import and there is
    a row to annotate (\<open>plot_scatter_nameerror\<close>).
  \<^item> Report: the invariant \<open>run_ok\<close> of the loop (files kept but for the scratch names,
    calls only appended, each slide finding its pictures, \<open>slides_data\<close> matching the slides
    added), proved per branch and by induction on the variables; from it, the shape of a
    completed run and its saved deck (\<open>AnalysisReport_saved\<close>), the working directory
    (\<open>AnalysisReport_files\<close>) and the picture snapshots (\<open>AnalysisReport_snapshots\<close>);
    the number branch exactly (\<open>number_var_spec\<close>); the category summary naming position 0
    (\<open>category_var_position_zero\<close>); the \<open>ValueError\<close> of a datetime column without
    timestamps; the deck is saved under the given \<open>s + '.pptx'\<close> exactly when the base
    name of \<open>s\<close> is not all dots (\<open>AnalysisReport_saved_as_given\<close>).
  \<^item> Across components (this theory): after \<open>type_of_var\<close> rewrites the table in place,
    the stored dtype of each column agrees with its reported vtype, so \<open>describe\<close> sees the
    rewritten data (\<open>type_of_var_storage\<close>); on a table of distinct names and known
    dtypes, \<open>AnalysisReport\<close> without a \<open>var_list\<close> returns exactly when
    \<open>var_detection\<close> does, so the grouping loop is the call's only way not to return
    (\<open>AnalysisReport_returns_iff\<close>).

  \<^bold>\<open>Bounds and fuel.\<close> No fuel is used: the one loop that may not return
  (\<open>group_scan\<close>) is a least fixed point, and the theorems about it are stated against the
  total \<open>scan_ref\<close>, so "returns" is proved as such. The searches \<open>cbrt_ceil\<close> and
  \<open>isqrt_from\<close> terminate by measure.

  \<^bold>\<open>Not modelled.\<close> The imports and \<open>_thisdir\<close> (lines 8--32), which no code
  reads. The rendering done by matplotlib, seaborn and the word-cloud generator (artists
  are kept abstract), the slide writer \<open>reportgen.report\<close> beyond the calls made on it,
  the string formatting of titles and summaries, and the clock. In \<open>AnalysisReport\<close> a
  number or group variable on a non-numeric column, a datetime variable on a non-datetime
  column and the opaque dtypes give \<open>None\<close> (outside the model), as does a table
  \<open>describe\<close> cannot summarise; \<open>AnalysisReport_returns_iff\<close> shows that none of
  these arises from what \<open>var_detection\<close> produces, so they concern only a
  caller-supplied \<open>var_list\<close> or an opaque column. Float rounding, int64 overflow, the Series-argument path
  of \<open>dtype_detection\<close>, and dtypes other than numeric, object, datetime and categorical
  (\<open>OtherCol\<close>) are outside the model. The cells of an object column are strings or
  Python integers (floats, booleans and tuples are not modelled; a tuple cell would make
  line 153 raise \<open>TypeError\<close>), and a missing cell is NaN (a \<open>None\<close> cell, which
  line 153 prints as \<open>'None'\<close>, is not distinguished). Strings are lists of 8-bit
  characters;
  pandas 1.x, numpy and seaborn 0.9/0.10 semantics are assumed where the versions differ.
\<close>

section \<open>Properties that span the components\<close>

text \<open>
  C11: the report builder consumes whatever the scanner hands it: for a table with
  distinct column names and no column of a dtype the model leaves opaque,
  \<open>AnalysisReport(data)\<close> without a \<open>var_list\<close> returns (a value or an exception)
  exactly when \<open>var_detection\<close> returns. The classifier's results and merged groups are
  typed against the table it rewrites, every branch of the report loop returns on a typed
  variable, and \<open>describe\<close> summarises every column; so the only way the call fails to
  return is the grouping loop of \<open>var_detection\<close>.
\<close>

theorem AnalysisReport_returns_iff:
  assumes "distinct (map fst tbl)" and "no_opaque tbl"
  shows "AnalysisReport E ms P tbl filename None fs = None \<longleftrightarrow> var_detection P True tbl = None"
proof (cases "var_detection P True tbl")
  case (Some res)
  show ?thesis
  proof (cases res)
    case (Inr p)
    obtain vars data where p: "p = (vars, data)" by (cases p)
    with Some Inr have vd: "var_detection P True tbl = Some (Inr (vars, data))" by simp
    have "no_opaque data \<and> list_all (var_typed data) vars" by (rule var_detection_typed [OF assms vd])
    then show ?thesis
      using AnalysisReport_typed_returns AnalysisReport_detected [OF vd] vd by simp
  qed (simp add: AnalysisReport_def Some Let_def)
qed (simp add: AnalysisReport_def)

text \<open>
  C34: the classifier's rewrites are what later consumers see: after \<open>type_of_var(data)\<close>
  with \<open>inplace=True\<close> and distinct column names, a column reported as a number is stored
  as a numeric column, so \<open>describe\<close> gives it the numeric summary; a column reported as a
  category is stored as an unordered categorical column with categories; a column reported
  as a datetime is stored with a datetime dtype.
\<close>

theorem type_of_var_storage:
  assumes "distinct (map fst tbl)" and "type_of_var P True tbl = Inr (m, t)" and "m c = Some v"
  shows "\<exists>col. map_of t c = Some col \<and>
           (v = Number \<longrightarrow> (\<exists>s. col = NumCol s \<and> describe_col col = Some (num_summary s))) \<and>
           (v = Category \<longrightarrow> (\<exists>cats s. col = CatCol cats False s \<and> cats \<noteq> [])) \<and>
           (v = Datetime \<longrightarrow> is_datetime col)"
proof -
  have loop: "type_of_var_loop P (map fst tbl) tbl Map.empty = Inr (m, t)"
    using assms(2) by (auto simp: type_of_var_def split: sum.splits prod.splits)
  note spec = type_of_var_loop_spec [OF assms(1) loop, simplified, of c]
  have "c \<in> set (map fst tbl)" using spec assms(3) by (cases "c \<in> set (map fst tbl)") auto
  then obtain col r col' where det: "dtype_detection P True True False c col = Inr (r, col')"
    and mc: "m c = map_option vtype r" and tc: "map_of t c = Some col'"
    using spec by auto
  obtain x where r: "r = Some x" and vx: "vtype x = v" using mc assms(3) by (cases r) auto
  have wf: "wf_result c x col'" using detection_wf_result det r by blast
  have num: "v = Number \<longrightarrow> (\<exists>s. col' = NumCol s \<and> describe_col col' = Some (num_summary s))"
    using wf vx by (cases col') (auto simp: wf_result_def)
  have cat: "v = Category \<longrightarrow> (\<exists>cats s. col' = CatCol cats False s \<and> cats \<noteq> [])"
    using wf vx by (cases col') (auto simp: wf_result_def)
  have dt: "v = Datetime \<longrightarrow> is_datetime col'"
    using wf vx by (auto simp: wf_result_def)
  show ?thesis using tc num cat dt by blast
qed

section \<open>Witnesses\<close>

lemma AnalysisReport_returns_iff_witness:
  "distinct (map fst tbl_items) \<and> no_opaque tbl_items \<and>
   AnalysisReport rep_env rep_ms std_parsers tbl_items (FStr ''items.pptx'') None Map.empty \<noteq> None"
proof -
  define L where "L = num_results [''Item1'', ''Item2'', ''Item3'']"
  have d: "distinct (map fst tbl_items)" and o: "no_opaque tbl_items"
    by (simp_all add: tbl_items_def no_opaque_def num3_def)
  have cls: "classify_columns std_parsers (map fst tbl_items) tbl_items = Inr (L, tbl_items)"
    by (simp add: tbl_items_def num3_def L_def num_results_def; code_simp)
  have "scan_ref L 0 [] = Some [[0, 1, 2]]" by (simp add: L_def num_results_def; code_simp)
  then have "group_scan L 0 [] = Some [[0, 1, 2]]" by (rule scan_ref_group_scan)
  with cls have "var_detection std_parsers True tbl_items \<noteq> None"
    by (auto simp: var_detection_def split: sum.splits)
  with AnalysisReport_returns_iff [OF d o, of rep_env rep_ms std_parsers "FStr ''items.pptx''" Map.empty] d o
  show ?thesis by simp
qed

lemma type_of_var_storage_witness:
  "distinct (map fst tbl_items) \<and>
   (\<exists>m t. type_of_var std_parsers True tbl_items = Inr (m, t) \<and> m ''Item1'' = Some Number \<and>
          (\<exists>s. map_of t ''Item1'' = Some (NumCol s)))"
proof -
  have d: "distinct (map fst tbl_items)" by (simp add: tbl_items_def)
  have ev: "case type_of_var std_parsers True tbl_items of Inr (m, t) \<Rightarrow> m ''Item1'' = Some Number | Inl e \<Rightarrow> False"
    by (simp add: tbl_items_def num3_def; code_simp)
  then obtain m t where r: "type_of_var std_parsers True tbl_items = Inr (m, t)" and n: "m ''Item1'' = Some Number"
    by (auto split: sum.splits prod.splits)
  from type_of_var_storage [OF d r n] obtain col where "map_of t ''Item1'' = Some col" "\<exists>s. col = NumCol s"
    by auto
  then show ?thesis using d r n by blast
qed

end
